theory Spec2Isabelle
  imports Complex_Main "HOL-Library.AList"
begin

section \<open>Word stress prediction: vocabulary, masked loss and decoding, orchestration\<close>

text \<open>
  The development embeds the two notebooks \<^verbatim>\<open>Test\<close> (bidirectional encoder)
  and \<^verbatim>\<open>Test-Copy1\<close> (unidirectional encoder with dropout). Python strings are
  sequences of code points, Python integers are \<open>int\<close> where a negative number can
  reach the code (syllable counts and stress labels read from the CSV file), tensors
  of scores are lists of reals (floating-point numbers are taken as the real numbers
  they stand for), and every exception the code can raise is a value of the type
  \<open>error\<close>.
\<close>

subsection \<open>Characters, strings and dictionaries\<close>

type_synonym pychar = nat
type_synonym pystr = "pychar list"

text \<open>The key \<^verbatim>\<open>'<PAD>'\<close>: a string of five code points.\<close>

definition PAD :: pystr where
  "PAD = [60, 80, 65, 68, 62]"

text \<open>
  A Python \<^verbatim>\<open>dict\<close> is an association list with distinct keys in insertion
  order; \<^verbatim>\<open>d[k] = v\<close> is \<open>AList.update\<close>, \<^verbatim>\<open>d.get(k, default)\<close>
  is \<open>dict_get\<close>, \<^verbatim>\<open>len(d)\<close> is \<open>length\<close>.
\<close>

definition dict_get :: "('k \<times> 'v) list \<Rightarrow> 'k \<Rightarrow> 'v \<Rightarrow> 'v" where
  "dict_get d k dflt = (case map_of d k of Some v \<Rightarrow> v | None \<Rightarrow> dflt)"

subsection \<open>\<^verbatim>\<open>build_vocab\<close> and \<^verbatim>\<open>encode_word\<close>\<close>

text \<open>The two nested loops that add every character of every word to the set.\<close>

definition collect_chars :: "pystr list \<Rightarrow> pychar set" where
  "collect_chars words = fold (\<lambda>word chars. fold Set.insert word chars) words {}"

text \<open>
  \<^verbatim>\<open>sorted(list(chars))\<close>: the one-character strings in code point order; then the
  dictionary comprehension over \<^verbatim>\<open>enumerate(chars)\<close>, the padding entry, and the
  inverse dictionary.
\<close>

definition build_vocab :: "pystr list \<Rightarrow> (pystr \<times> nat) list \<times> (nat \<times> pystr) list" where
  "build_vocab words =
     (let chars = sorted_list_of_set (collect_chars words);
          char2idx = map (\<lambda>(idx, ch). ([ch], idx + 1)) (enumerate 0 chars);
          char2idx = AList.update PAD 0 char2idx;
          idx2char = fold (\<lambda>(ch, idx) d. AList.update idx ch d) char2idx []
      in (char2idx, idx2char))"

definition encode_word :: "pystr \<Rightarrow> (pystr \<times> 'v::zero) list \<Rightarrow> 'v list" where
  "encode_word word char2idx = map (\<lambda>ch. dict_get char2idx [ch] 0) word"

text \<open>
  The distinct characters of a collection of words in code point order: the notion the
  specification of the vocabulary builder is phrased in.
\<close>

definition corpus_chars :: "pystr list \<Rightarrow> pychar list" where
  "corpus_chars words = sorted_list_of_set (\<Union>w\<in>set words. set w)"

subsection \<open>Errors and scores\<close>

text \<open>
  Each constructor is one way the code aborts: \<^verbatim>\<open>torch.argmax\<close> of a tensor
  without elements, a class index that \<^verbatim>\<open>cross_entropy\<close> rejects, a Python
  division by zero, an index past the end of a tensor, \<^verbatim>\<open>max\<close> of an empty
  list, a sequence length that \<^verbatim>\<open>pack_padded_sequence\<close> rejects, a character
  index outside the embedding table, a parameter of the wrong shape in
  \<^verbatim>\<open>load_state_dict\<close>, \<^verbatim>\<open>pad_sequence\<close> of no sequence, a batch without
  labels where labels are read, an embedding table without the padding row, a layer
  with a negative number of outputs, a recurrent layer without inputs or without hidden
  units, a data loader with a batch size of zero, and a shuffling data loader over a data
  set without items.
\<close>

datatype error =
    EmptyArgmax
  | TargetOutOfBounds
  | ZeroDivision
  | IndexOutOfRange
  | EmptyMax
  | PackLength
  | EmbeddingIndex
  | SizeMismatch
  | EmptyBatch
  | NoStress
  | PaddingIndex
  | NegativeDimension
  | RecurrentSize
  | BatchSize
  | NumSamples

text \<open>
  Scores are real numbers. A loss is a real number or the not-a-number that
  \<^verbatim>\<open>cross_entropy\<close> returns when its only target is the ignored index: the mean
  over zero counted targets.
\<close>

datatype loss = Finite real | NaN

fun loss_add :: "loss \<Rightarrow> loss \<Rightarrow> loss" where
  "loss_add (Finite a) (Finite b) = Finite (a + b)"
| "loss_add _ _ = NaN"

fun loss_div :: "loss \<Rightarrow> nat \<Rightarrow> loss" where
  "loss_div (Finite a) n = Finite (a / real n)"
| "loss_div NaN n = NaN"

subsection \<open>Slicing and \<^verbatim>\<open>argmax\<close>\<close>

text \<open>
  \<^verbatim>\<open>xs[:k]\<close>: the first \<open>k\<close> entries, all of them when \<open>k\<close> exceeds the
  length, and all but the last \<open>-k\<close> when \<open>k\<close> is negative.
\<close>

definition slice_to :: "int \<Rightarrow> 'a list \<Rightarrow> 'a list" where
  "slice_to k xs = (if 0 \<le> k then take (nat k) xs else take (nat (int (length xs) + k)) xs)"

text \<open>
  \<^verbatim>\<open>torch.argmax\<close> of a one-dimensional tensor: a scan that keeps the first
  index of the largest entry seen so far, and an error on a tensor without elements.
\<close>

fun argmax_scan :: "real \<Rightarrow> nat \<Rightarrow> nat \<Rightarrow> real list \<Rightarrow> nat" where
  "argmax_scan best besti i [] = besti"
| "argmax_scan best besti i (x # xs) =
     (if best < x then argmax_scan x i (Suc i) xs else argmax_scan best besti (Suc i) xs)"

definition argmax :: "real list \<Rightarrow> error + nat" where
  "argmax xs = (case xs of [] \<Rightarrow> Inl EmptyArgmax | x # rest \<Rightarrow> Inr (argmax_scan x 0 1 rest))"

subsection \<open>The masked loss and the decoding step\<close>

text \<open>
  \<^verbatim>\<open>nn.functional.cross_entropy\<close> on one row of scores and one class index, with
  the defaults of the library (mean reduction, ignored index \<open>-100\<close>): the ignored index
  is skipped before the range check and leaves a mean over nothing.
\<close>

definition cross_entropy :: "real list \<Rightarrow> int \<Rightarrow> error + loss" where
  "cross_entropy x t =
     (if t = - 100 then Inr NaN
      else if t < 0 \<or> int (length x) \<le> t then Inl TargetOutOfBounds
      else Inr (Finite (- ln (exp (x ! nat t) / (\<Sum>v\<leftarrow>x. exp v)))))"

text \<open>The categorical cross-entropy of a score vector and a class index, as the specification names it.\<close>

definition categorical_cross_entropy :: "real list \<Rightarrow> nat \<Rightarrow> real" where
  "categorical_cross_entropy x t = - ln (exp (x ! t) / (\<Sum>j<length x. exp (x ! j)))"

text \<open>
  The body of the loop of \<^verbatim>\<open>masked_cross_entropy_loss\<close>: the scores of the
  row are cut to the first \<^verbatim>\<open>valid_len\<close>, the label is shifted to a class
  index, and the library computes the loss of the row.
\<close>

definition example_loss :: "real list \<Rightarrow> int \<Rightarrow> int \<Rightarrow> error + loss" where
  "example_loss logits_i valid_len stress_i =
     (let logit_i = slice_to valid_len logits_i;
          target = stress_i - 1
      in cross_entropy logit_i target)"

text \<open>
  The loop over the rows of the batch with the running sum; a row without a syllable
  count or a label is an index error.
\<close>

fun loss_loop :: "real list list \<Rightarrow> int list \<Rightarrow> int list \<Rightarrow> loss \<Rightarrow> error + loss" where
  "loss_loop [] stresses num_syllables batch_loss = Inr batch_loss"
| "loss_loop (logits_i # logits) (stress_i # stresses) (valid_len # num_syllables) batch_loss =
     (case example_loss logits_i valid_len stress_i of
        Inl e \<Rightarrow> Inl e
      | Inr loss_i \<Rightarrow> loss_loop logits stresses num_syllables (loss_add batch_loss loss_i))"
| "loss_loop (logits_i # logits) stresses num_syllables batch_loss = Inl IndexOutOfRange"

definition masked_cross_entropy_loss :: "real list list \<Rightarrow> int list \<Rightarrow> int list \<Rightarrow> error + loss" where
  "masked_cross_entropy_loss logits stresses num_syllables =
     (case loss_loop logits stresses num_syllables (Finite 0) of
        Inl e \<Rightarrow> Inl e
      | Inr batch_loss \<Rightarrow>
          if length logits = 0 then Inl ZeroDivision
          else Inr (loss_div batch_loss (length logits)))"

text \<open>
  The body of the inner loop of \<^verbatim>\<open>predict\<close>: the one-indexed position of the
  largest score among the first \<^verbatim>\<open>valid_len\<close>.
\<close>

definition decode :: "real list \<Rightarrow> int \<Rightarrow> error + int" where
  "decode logits_i valid_len =
     (case argmax (slice_to valid_len logits_i) of
        Inl e \<Rightarrow> Inl e
      | Inr pred \<Rightarrow> Inr (int pred + 1))"

text \<open>
  The body of the inner loop of \<^verbatim>\<open>evaluate_model\<close>: whether the zero-indexed
  prediction is the zero-indexed label.
\<close>

definition evaluate_example :: "real list \<Rightarrow> int \<Rightarrow> int \<Rightarrow> error + bool" where
  "evaluate_example logits_i valid_len stress_i =
     (case argmax (slice_to valid_len logits_i) of
        Inl e \<Rightarrow> Inl e
      | Inr pred \<Rightarrow> Inr (int pred = stress_i - 1))"

text \<open>
  The lowest index of a maximum of a list of scores: every entry is at most the entry
  at \<open>p\<close>, and every earlier entry is strictly smaller.
\<close>

definition first_max :: "real list \<Rightarrow> nat \<Rightarrow> bool" where
  "first_max xs p \<longleftrightarrow>
     p < length xs \<and> (\<forall>j<length xs. xs ! j \<le> xs ! p) \<and> (\<forall>j<p. xs ! j < xs ! p)"

text \<open>The number a loss carries when it is a number.\<close>

fun loss_value :: "error + loss \<Rightarrow> real" where
  "loss_value (Inr (Finite v)) = v"
| "loss_value _ = 0"

subsection \<open>Failing steps in sequence\<close>

text \<open>A loop whose body can raise: the first error ends it.\<close>

fun map_err :: "('a \<Rightarrow> error + 'b) \<Rightarrow> 'a list \<Rightarrow> error + 'b list" where
  "map_err f [] = Inr []"
| "map_err f (x # xs) =
     (case f x of
        Inl e \<Rightarrow> Inl e
      | Inr y \<Rightarrow> (case map_err f xs of Inl e \<Rightarrow> Inl e | Inr ys \<Rightarrow> Inr (y # ys)))"

subsection \<open>The data set and the batch assembler\<close>

text \<open>
  A row of the CSV file. Reading the file is outside the model; the file of the
  predict mode has no label column, and the label of its rows is never read.
\<close>

record csv_row =
  row_id :: int
  row_word :: pystr
  row_num_syllables :: int
  row_stress :: int

datatype dataset_mode = TrainMode | TestMode

record StressDataset =
  ds_mode :: dataset_mode
  ds_words :: "pystr list"
  ds_stresses :: "int list option"
  ds_num_syllables :: "int list"
  ds_ids :: "int list"
  ds_char2idx :: "(pystr \<times> nat) list"
  ds_encoded_words :: "nat list list"

definition StressDataset_init ::
  "csv_row list \<Rightarrow> (pystr \<times> nat) list option \<Rightarrow> dataset_mode \<Rightarrow> StressDataset" where
  "StressDataset_init csv_file char2idx mode =
     (let words = map row_word csv_file;
          c2i = (case char2idx of None \<Rightarrow> fst (build_vocab words) | Some d \<Rightarrow> d)
      in \<lparr>ds_mode = mode,
          ds_words = words,
          ds_stresses = (if mode = TrainMode then Some (map row_stress csv_file) else None),
          ds_num_syllables = map row_num_syllables csv_file,
          ds_ids = map row_id csv_file,
          ds_char2idx = c2i,
          ds_encoded_words = map (\<lambda>word. encode_word word c2i) words\<rparr>)"

record item =
  item_id :: int
  item_word :: pystr
  item_encoded :: "nat list"
  item_num_syllables :: int
  item_stress :: "int option"

text \<open>Indexing a Python list: an index error past the end.\<close>

definition list_get :: "'a list \<Rightarrow> nat \<Rightarrow> error + 'a" where
  "list_get xs i = (if i < length xs then Inr (xs ! i) else Inl IndexOutOfRange)"

definition getitem :: "StressDataset \<Rightarrow> nat \<Rightarrow> error + item" where
  "getitem ds idx =
     (case list_get (ds_ids ds) idx of Inl e \<Rightarrow> Inl e | Inr i \<Rightarrow>
      case list_get (ds_words ds) idx of Inl e \<Rightarrow> Inl e | Inr w \<Rightarrow>
      case list_get (ds_encoded_words ds) idx of Inl e \<Rightarrow> Inl e | Inr enc \<Rightarrow>
      case list_get (ds_num_syllables ds) idx of Inl e \<Rightarrow> Inl e | Inr k \<Rightarrow>
      if ds_mode ds = TrainMode then
        (case ds_stresses ds of
           None \<Rightarrow> Inl NoStress
         | Some stresses \<Rightarrow>
             (case list_get stresses idx of Inl e \<Rightarrow> Inl e | Inr s \<Rightarrow>
                Inr \<lparr>item_id = i, item_word = w, item_encoded = enc,
                     item_num_syllables = k, item_stress = Some s\<rparr>))
      else Inr \<lparr>item_id = i, item_word = w, item_encoded = enc,
                item_num_syllables = k, item_stress = None\<rparr>)"

text \<open>
  \<^verbatim>\<open>pad_sequence\<close> with \<^verbatim>\<open>batch_first=True\<close> and the padding value 0: every
  sequence is filled with zeros up to the longest of the batch; a batch without a
  sequence is an error.
\<close>

definition pad_sequence :: "nat list list \<Rightarrow> error + nat list list" where
  "pad_sequence seqs =
     (if seqs = [] then Inl EmptyBatch
      else let width = fold max (map length seqs) 0
           in Inr (map (\<lambda>seq. seq @ replicate (width - length seq) 0) seqs))"

text \<open>
  \<^verbatim>\<open>collate_fn\<close>. The first item is looked at after \<^verbatim>\<open>pad_sequence\<close> has
  accepted the batch, so there is one.
\<close>

record batch =
  b_id :: "int list"
  b_encoded :: "nat list list"
  b_lengths :: "nat list"
  b_num_syllables :: "int list"
  b_stress :: "int list option"

definition collate_fn :: "item list \<Rightarrow> error + batch" where
  "collate_fn items =
     (let ids = map item_id items;
          encoded_seqs = map item_encoded items;
          lengths = map length encoded_seqs
      in case pad_sequence encoded_seqs of
           Inl e \<Rightarrow> Inl e
         | Inr padded \<Rightarrow>
             (let num_syllables = map item_num_syllables items
              in if item_stress (hd items) \<noteq> None then
                   (case map_err (\<lambda>b. case item_stress b of None \<Rightarrow> Inl NoStress | Some s \<Rightarrow> Inr s) items of
                      Inl e \<Rightarrow> Inl e
                    | Inr stresses \<Rightarrow>
                        Inr \<lparr>b_id = ids, b_encoded = padded, b_lengths = lengths,
                             b_num_syllables = num_syllables, b_stress = Some stresses\<rparr>)
                 else Inr \<lparr>b_id = ids, b_encoded = padded, b_lengths = lengths,
                           b_num_syllables = num_syllables, b_stress = None\<rparr>))"

subsection \<open>The model\<close>

text \<open>
  The shape of a model is the arguments of its constructor, and which of the two
  notebooks defines it: \<^verbatim>\<open>Test\<close> has the bidirectional encoder, \<^verbatim>\<open>Test-Copy1\<close>
  the unidirectional one with dropout. The tensors of a model are read by position;
  their sizes are those the constructor gives them: \<^verbatim>\<open>embedding.weight\<close> is
  \<open>vocab_size \<times> embed_dim\<close>, \<^verbatim>\<open>lstm.weight_ih_l0\<close> is \<open>4 * hidden_size \<times> embed_dim\<close>,
  \<^verbatim>\<open>lstm.weight_hh_l0\<close> is \<open>4 * hidden_size \<times> hidden_size\<close>, the two biases have
  \<open>4 * hidden_size\<close> entries, the bidirectional encoder has the same four tensors for the
  reverse direction, \<^verbatim>\<open>fc.weight\<close> is \<open>num_classes\<close> times the width of the
  summary, and \<^verbatim>\<open>fc.bias\<close> has \<open>num_classes\<close> entries.
\<close>

record model_shape =
  bidirectional :: bool
  vocab_size :: nat
  embed_dim :: nat
  hidden_size :: nat
  num_classes :: nat

record model_values =
  embedding_weight :: "nat \<Rightarrow> nat \<Rightarrow> real"
  weight_ih_l0 :: "nat \<Rightarrow> nat \<Rightarrow> real"
  weight_hh_l0 :: "nat \<Rightarrow> nat \<Rightarrow> real"
  bias_ih_l0 :: "nat \<Rightarrow> real"
  bias_hh_l0 :: "nat \<Rightarrow> real"
  weight_ih_l0_reverse :: "nat \<Rightarrow> nat \<Rightarrow> real"
  weight_hh_l0_reverse :: "nat \<Rightarrow> nat \<Rightarrow> real"
  bias_ih_l0_reverse :: "nat \<Rightarrow> real"
  bias_hh_l0_reverse :: "nat \<Rightarrow> real"
  fc_weight :: "nat \<Rightarrow> nat \<Rightarrow> real"
  fc_bias :: "nat \<Rightarrow> real"

record StressModel =
  shape :: model_shape
  weights :: model_values
  training :: bool

text \<open>
  The constructor. The initial entries of the tensors are drawn at random: they are an
  argument. \<^verbatim>\<open>padding_idx=0\<close> needs a row 0 in the embedding table and fills it
  with zeros; \<^verbatim>\<open>nn.LSTM\<close> refuses an input size of zero (the width of the
  embedding) and a hidden size of zero, and \<^verbatim>\<open>nn.Linear\<close> a negative number of
  classes. The layers are built in this order.
\<close>

definition StressModel_init ::
  "bool \<Rightarrow> model_values \<Rightarrow> nat \<Rightarrow> nat \<Rightarrow> nat \<Rightarrow> int \<Rightarrow> error + StressModel" where
  "StressModel_init bidir init n_vocab n_embed n_hidden n_classes =
     (if n_vocab = 0 then Inl PaddingIndex
      else if n_embed = 0 \<or> n_hidden = 0 then Inl RecurrentSize
      else if n_classes < 0 then Inl NegativeDimension
      else Inr \<lparr>shape = \<lparr>bidirectional = bidir, vocab_size = n_vocab, embed_dim = n_embed,
                           hidden_size = n_hidden, num_classes = nat n_classes\<rparr>,
                weights = init\<lparr>embedding_weight :=
                             (\<lambda>r c. if r = 0 then 0 else embedding_weight init r c)\<rparr>,
                training = True\<rparr>)"

text \<open>The embedding layer: the row of the table at the index, an error past the table.\<close>

definition embedding :: "StressModel \<Rightarrow> nat \<Rightarrow> error + real list" where
  "embedding model idx =
     (if idx < vocab_size (shape model)
      then Inr (map (embedding_weight (weights model) idx) [0..<embed_dim (shape model)])
      else Inl EmbeddingIndex)"

text \<open>
  \<^verbatim>\<open>pack_padded_sequence\<close>: one length per row, every length positive and within
  the padded width; the packed batch holds the first \<open>length\<close> steps of each row and
  nothing of the padding.
\<close>

definition pack_padded_sequence :: "'a list list \<Rightarrow> nat list \<Rightarrow> error + 'a list list" where
  "pack_padded_sequence embedded lengths =
     (if length lengths \<noteq> length embedded then Inl PackLength
      else if list_ex (\<lambda>(seq, l). l = 0 \<or> length seq < l) (zip embedded lengths) then Inl PackLength
      else Inr (map (\<lambda>(seq, l). take l seq) (zip embedded lengths)))"

text \<open>
  One step of the LSTM layer of the library on an input vector and the pair of hidden
  and cell state, with the gates in the order input, forget, cell, output.
\<close>

definition sigmoid :: "real \<Rightarrow> real" where
  "sigmoid x = 1 / (1 + exp (- x))"

definition lstm_cell ::
  "(nat \<Rightarrow> nat \<Rightarrow> real) \<Rightarrow> (nat \<Rightarrow> nat \<Rightarrow> real) \<Rightarrow> (nat \<Rightarrow> real) \<Rightarrow> (nat \<Rightarrow> real) \<Rightarrow> nat \<Rightarrow> nat
     \<Rightarrow> real list \<Rightarrow> real list \<times> real list \<Rightarrow> real list \<times> real list" where
  "lstm_cell w_ih w_hh b_ih b_hh E H x hc =
     (let h = fst hc; c = snd hc;
          gate = (\<lambda>r. (\<Sum>j\<leftarrow>[0..<E]. w_ih r j * x ! j) + b_ih r
                      + (\<Sum>j\<leftarrow>[0..<H]. w_hh r j * h ! j) + b_hh r);
          gi = map (\<lambda>r. sigmoid (gate r)) [0..<H];
          gf = map (\<lambda>r. sigmoid (gate (H + r))) [0..<H];
          gg = map (\<lambda>r. tanh (gate (2 * H + r))) [0..<H];
          go = map (\<lambda>r. sigmoid (gate (3 * H + r))) [0..<H];
          c' = map (\<lambda>r. gf ! r * c ! r + gi ! r * gg ! r) [0..<H];
          h' = map (\<lambda>r. go ! r * tanh (c' ! r)) [0..<H]
      in (h', c'))"

text \<open>
  The final hidden states \<^verbatim>\<open>h_n[0]\<close> and \<^verbatim>\<open>h_n[1]\<close> of one packed sequence: the
  forward direction runs over the steps in order, the reverse direction from the last
  step to the first, both from zero states.
\<close>

definition h_forward :: "StressModel \<Rightarrow> real list list \<Rightarrow> real list" where
  "h_forward model seq =
     (let v = weights model; E = embed_dim (shape model); H = hidden_size (shape model)
      in fst (fold (lstm_cell (weight_ih_l0 v) (weight_hh_l0 v) (bias_ih_l0 v) (bias_hh_l0 v) E H)
                seq (replicate H 0, replicate H 0)))"

definition h_backward :: "StressModel \<Rightarrow> real list list \<Rightarrow> real list" where
  "h_backward model seq =
     (let v = weights model; E = embed_dim (shape model); H = hidden_size (shape model)
      in fst (fold (lstm_cell (weight_ih_l0_reverse v) (weight_hh_l0_reverse v)
                      (bias_ih_l0_reverse v) (bias_hh_l0_reverse v) E H)
                (rev seq) (replicate H 0, replicate H 0)))"

text \<open>The linear layer: one score per class.\<close>

definition fc :: "StressModel \<Rightarrow> real list \<Rightarrow> real list" where
  "fc model h =
     map (\<lambda>r. (\<Sum>j\<leftarrow>[0..<length h]. fc_weight (weights model) r j * h ! j) + fc_bias (weights model) r)
       [0..<num_classes (shape model)]"

text \<open>
  The dropout layer of \<^verbatim>\<open>Test-Copy1\<close>: the identity in evaluation mode; in training
  mode every entry is multiplied by a factor drawn at random (0 or \<open>1 / (1 - 0.2)\<close>):
  the factors are an argument.
\<close>

definition dp :: "StressModel \<Rightarrow> (nat \<Rightarrow> real) \<Rightarrow> real list \<Rightarrow> real list" where
  "dp model factors h =
     (if training model then map (\<lambda>(j, v). factors j * v) (enumerate 0 h) else h)"

text \<open>
  \<^verbatim>\<open>StressModel.forward\<close> of both notebooks. The summary of a row is the two final
  hidden states side by side, or the forward one after dropout; \<open>noise\<close> gives the
  dropout factors of each row of the batch.
\<close>

definition summary :: "StressModel \<Rightarrow> (nat \<Rightarrow> real) \<Rightarrow> real list list \<Rightarrow> real list" where
  "summary model factors seq =
     (if bidirectional (shape model) then h_forward model seq @ h_backward model seq
      else dp model factors (h_forward model seq))"

definition forward ::
  "StressModel \<Rightarrow> (nat \<Rightarrow> nat \<Rightarrow> real) \<Rightarrow> nat list list \<Rightarrow> nat list \<Rightarrow> error + real list list" where
  "forward model noise x lengths =
     (case map_err (map_err (embedding model)) x of
        Inl e \<Rightarrow> Inl e
      | Inr embedded \<Rightarrow>
          (case pack_padded_sequence embedded lengths of
             Inl e \<Rightarrow> Inl e
           | Inr packed \<Rightarrow>
               Inr (map (\<lambda>(i, seq). fc model (summary model (noise i) seq)) (enumerate 0 packed))))"

subsection \<open>The data loader\<close>

text \<open>Consecutive batches of at most \<open>n\<close> items; the last one may be shorter.\<close>

function chunks :: "nat \<Rightarrow> 'a list \<Rightarrow> 'a list list" where
  "chunks n xs = (if n = 0 \<or> xs = [] then [] else take n xs # chunks n (drop n xs))"
  by pat_completeness auto
termination
  by (relation "measure (\<lambda>(n, xs). length xs)") auto

declare chunks.simps [simp del]

record loader =
  l_items :: "item list"
  l_batch_size :: nat
  l_shuffle :: bool

text \<open>
  \<^verbatim>\<open>DataLoader(dataset, batch_size, shuffle, collate_fn)\<close>: with
  \<^verbatim>\<open>shuffle=True\<close> the random sampler is built first and refuses a data set without
  items; then a batch size of zero is refused; the items are those at the indices below
  \<^verbatim>\<open>len(dataset)\<close>.
\<close>

definition DataLoader :: "StressDataset \<Rightarrow> nat \<Rightarrow> bool \<Rightarrow> error + loader" where
  "DataLoader dataset n shuffle =
     (if shuffle \<and> length (ds_words dataset) = 0 then Inl NumSamples
      else if n = 0 then Inl BatchSize
      else case map_err (getitem dataset) [0..<length (ds_words dataset)] of
             Inl e \<Rightarrow> Inl e
           | Inr items \<Rightarrow> Inr \<lparr>l_items = items, l_batch_size = n, l_shuffle = shuffle\<rparr>)"

text \<open>
  One pass over a loader: the batches of items, in the order of the data set or in the
  order the random permutation of this pass gives. \<^verbatim>\<open>collate_fn\<close> runs on each
  batch when the loop reaches it.
\<close>

definition iterate :: "loader \<Rightarrow> (item list \<Rightarrow> item list) \<Rightarrow> item list list" where
  "iterate dl order =
     chunks (l_batch_size dl) (if l_shuffle dl then order (l_items dl) else l_items dl)"

subsection \<open>Training, evaluation and prediction\<close>

text \<open>
  What a run draws at random or delegates to the library: the initial tensors of a new
  model, the permutation of each shuffled pass, the dropout factors of each batch, and
  the optimizer, which from its own state, the model and the batch computes the
  gradient of the loss and the new tensors.
\<close>

record 'o env =
  init_weights :: model_values
  shuffle_order :: "nat \<Rightarrow> item list \<Rightarrow> item list"
  dropout_noise :: "nat \<Rightarrow> nat \<Rightarrow> nat \<Rightarrow> nat \<Rightarrow> real"
  optimizer_init :: 'o
  optimizer_step :: "'o \<Rightarrow> StressModel \<Rightarrow> batch \<Rightarrow> (nat \<Rightarrow> nat \<Rightarrow> real) \<Rightarrow> 'o \<times> model_values"

text \<open>The loop of \<^verbatim>\<open>train_model\<close> over the batches of one pass.\<close>

fun train_loop ::
  "'o env \<Rightarrow> nat \<Rightarrow> nat \<Rightarrow> item list list \<Rightarrow> StressModel \<Rightarrow> 'o \<Rightarrow> loss
     \<Rightarrow> error + (StressModel \<times> 'o \<times> loss)" where
  "train_loop env epoch bi [] model ost total_loss = Inr (model, ost, total_loss)"
| "train_loop env epoch bi (items # rest) model ost total_loss =
     (case collate_fn items of Inl e \<Rightarrow> Inl e | Inr batch \<Rightarrow>
      case forward model (dropout_noise env epoch bi) (b_encoded batch) (b_lengths batch) of
        Inl e \<Rightarrow> Inl e | Inr logits \<Rightarrow>
      case b_stress batch of None \<Rightarrow> Inl NoStress | Some stresses \<Rightarrow>
      case masked_cross_entropy_loss logits stresses (b_num_syllables batch) of
        Inl e \<Rightarrow> Inl e | Inr batch_loss \<Rightarrow>
          (let step = optimizer_step env ost model batch (dropout_noise env epoch bi)
           in train_loop env epoch (Suc bi) rest (model\<lparr>weights := snd step\<rparr>) (fst step)
                (loss_add total_loss batch_loss)))"

definition train_model ::
  "'o env \<Rightarrow> nat \<Rightarrow> StressModel \<Rightarrow> loader \<Rightarrow> 'o \<Rightarrow> error + (StressModel \<times> 'o \<times> loss)" where
  "train_model env epoch model dataloader ost =
     (let batches = iterate dataloader (shuffle_order env epoch)
      in case train_loop env epoch 0 batches (model\<lparr>training := True\<rparr>) ost (Finite 0) of
           Inl e \<Rightarrow> Inl e
         | Inr (model', ost', total_loss) \<Rightarrow>
             if length batches = 0 then Inl ZeroDivision
             else Inr (model', ost', loss_div total_loss (length batches)))"

text \<open>The loops of \<^verbatim>\<open>evaluate_model\<close>: over the rows of a batch, and over the batches.\<close>

fun evaluate_rows :: "real list list \<Rightarrow> int list \<Rightarrow> int list \<Rightarrow> nat \<times> nat \<Rightarrow> error + nat \<times> nat" where
  "evaluate_rows [] stresses num_syllables counts = Inr counts"
| "evaluate_rows (logits_i # logits) (stress_i # stresses) (valid_len # num_syllables) counts =
     (case evaluate_example logits_i valid_len stress_i of
        Inl e \<Rightarrow> Inl e
      | Inr hit \<Rightarrow>
          evaluate_rows logits stresses num_syllables
            ((if hit then Suc (fst counts) else fst counts), Suc (snd counts)))"
| "evaluate_rows (logits_i # logits) stresses num_syllables counts = Inl IndexOutOfRange"

fun evaluate_loop :: "StressModel \<Rightarrow> item list list \<Rightarrow> nat \<times> nat \<Rightarrow> error + nat \<times> nat" where
  "evaluate_loop model [] counts = Inr counts"
| "evaluate_loop model (items # rest) counts =
     (case collate_fn items of Inl e \<Rightarrow> Inl e | Inr batch \<Rightarrow>
      case forward model (\<lambda>i j. 1) (b_encoded batch) (b_lengths batch) of
        Inl e \<Rightarrow> Inl e | Inr logits \<Rightarrow>
      case b_stress batch of None \<Rightarrow> Inl NoStress | Some stresses \<Rightarrow>
      case evaluate_rows logits stresses (b_num_syllables batch) counts of
        Inl e \<Rightarrow> Inl e | Inr counts' \<Rightarrow> evaluate_loop model rest counts')"

definition evaluate_model :: "StressModel \<Rightarrow> loader \<Rightarrow> error + real" where
  "evaluate_model model dataloader =
     (case evaluate_loop (model\<lparr>training := False\<rparr>) (iterate dataloader (\<lambda>items. items)) (0, 0) of
        Inl e \<Rightarrow> Inl e
      | Inr (n_correct, n_total) \<Rightarrow>
          if n_total = 0 then Inl ZeroDivision else Inr (real n_correct / real n_total))"

text \<open>The loops of \<^verbatim>\<open>predict\<close>.\<close>

fun predict_rows :: "real list list \<Rightarrow> int list \<Rightarrow> error + int list" where
  "predict_rows [] num_syllables = Inr []"
| "predict_rows (logits_i # logits) (valid_len # num_syllables) =
     (case decode logits_i valid_len of
        Inl e \<Rightarrow> Inl e
      | Inr pred \<Rightarrow>
          (case predict_rows logits num_syllables of
             Inl e \<Rightarrow> Inl e
           | Inr predictions \<Rightarrow> Inr (pred # predictions)))"
| "predict_rows (logits_i # logits) [] = Inl IndexOutOfRange"

fun predict_loop :: "StressModel \<Rightarrow> item list list \<Rightarrow> error + int list \<times> int list" where
  "predict_loop model [] = Inr ([], [])"
| "predict_loop model (items # rest) =
     (case collate_fn items of Inl e \<Rightarrow> Inl e | Inr batch \<Rightarrow>
      case forward model (\<lambda>i j. 1) (b_encoded batch) (b_lengths batch) of
        Inl e \<Rightarrow> Inl e | Inr logits \<Rightarrow>
      case predict_rows logits (b_num_syllables batch) of
        Inl e \<Rightarrow> Inl e | Inr preds \<Rightarrow>
      case predict_loop model rest of
        Inl e \<Rightarrow> Inl e
      | Inr (ids_all, predictions) \<Rightarrow> Inr (b_id batch @ ids_all, preds @ predictions))"

definition predict :: "StressModel \<Rightarrow> loader \<Rightarrow> error + int list \<times> int list" where
  "predict model dataloader =
     predict_loop (model\<lparr>training := False\<rparr>) (iterate dataloader (\<lambda>items. items))"

subsection \<open>Checkpoints and the two modes of \<^verbatim>\<open>main\<close>\<close>

text \<open>
  \<^verbatim>\<open>model.state_dict()\<close> is the tensors of the model with their sizes;
  \<^verbatim>\<open>load_state_dict\<close> refuses tensors whose names or sizes are not those of the
  model it fills. \<^verbatim>\<open>torch.save\<close> followed by \<^verbatim>\<open>torch.load\<close> gives the saved
  object back.
\<close>

definition state_dict :: "StressModel \<Rightarrow> model_shape \<times> model_values" where
  "state_dict model = (shape model, weights model)"

definition load_state_dict :: "StressModel \<Rightarrow> model_shape \<times> model_values \<Rightarrow> error + StressModel" where
  "load_state_dict model sd =
     (if fst sd = shape model then Inr (model\<lparr>weights := snd sd\<rparr>) else Inl SizeMismatch)"

record checkpoint =
  ck_model_state_dict :: "model_shape \<times> model_values"
  ck_char2idx :: "(pystr \<times> nat) list"

record args =
  batch_size :: nat
  epochs :: nat
  lr :: real
  arg_embed_dim :: nat
  arg_hidden_size :: nat

text \<open>The two notebooks.\<close>

datatype notebook = Test | Test_Copy1

text \<open>\<^verbatim>\<open>max\<close> of a list of integers: an error on the empty list.\<close>

definition py_max :: "int list \<Rightarrow> error + int" where
  "py_max xs = (case xs of [] \<Rightarrow> Inl EmptyMax | x # rest \<Rightarrow> Inr (fold max rest x))"

text \<open>
  The train mode up to the construction of the model. \<^verbatim>\<open>Test\<close> passes the largest
  syllable count of the training data as the number of classes; \<^verbatim>\<open>Test-Copy1\<close>
  leaves the number of classes at the default of the constructor, 6.
\<close>

definition train_setup ::
  "notebook \<Rightarrow> 'o env \<Rightarrow> args \<Rightarrow> csv_row list \<Rightarrow> error + (StressDataset \<times> loader \<times> loader \<times> StressModel)" where
  "train_setup nb env a train_csv =
     (let train_dataset = StressDataset_init train_csv None TrainMode
      in case (if nb = Test then py_max (ds_num_syllables train_dataset) else Inr 6) of
           Inl e \<Rightarrow> Inl e | Inr max_num_syllables \<Rightarrow>
         case DataLoader train_dataset (batch_size a) True of Inl e \<Rightarrow> Inl e | Inr train_loader \<Rightarrow>
         case DataLoader train_dataset (batch_size a) False of Inl e \<Rightarrow> Inl e | Inr val_loader \<Rightarrow>
         case StressModel_init (nb = Test) (init_weights env) (length (ds_char2idx train_dataset))
                (arg_embed_dim a) (arg_hidden_size a) max_num_syllables of
           Inl e \<Rightarrow> Inl e
         | Inr model \<Rightarrow> Inr (train_dataset, train_loader, val_loader, model))"

text \<open>The epochs: one pass of training and one of evaluation each.\<close>

fun epoch_loop ::
  "'o env \<Rightarrow> loader \<Rightarrow> loader \<Rightarrow> nat \<Rightarrow> nat \<Rightarrow> StressModel \<Rightarrow> 'o \<Rightarrow> error + StressModel" where
  "epoch_loop env train_loader val_loader epoch 0 model ost = Inr model"
| "epoch_loop env train_loader val_loader epoch (Suc n) model ost =
     (case train_model env epoch model train_loader ost of
        Inl e \<Rightarrow> Inl e
      | Inr (model', ost', train_loss) \<Rightarrow>
          (case evaluate_model model' val_loader of
             Inl e \<Rightarrow> Inl e
           | Inr val_acc \<Rightarrow> epoch_loop env train_loader val_loader (Suc epoch) n model' ost'))"

definition main_train :: "notebook \<Rightarrow> 'o env \<Rightarrow> args \<Rightarrow> csv_row list \<Rightarrow> error + checkpoint" where
  "main_train nb env a train_csv =
     (case train_setup nb env a train_csv of
        Inl e \<Rightarrow> Inl e
      | Inr (train_dataset, train_loader, val_loader, model) \<Rightarrow>
          (case epoch_loop env train_loader val_loader 0 (epochs a) model (optimizer_init env) of
             Inl e \<Rightarrow> Inl e
           | Inr model' \<Rightarrow>
               Inr \<lparr>ck_model_state_dict = state_dict model',
                    ck_char2idx = ds_char2idx train_dataset\<rparr>))"

text \<open>
  The predict mode up to the loaded model. \<^verbatim>\<open>Test\<close> builds the model with the
  largest syllable count of the data to predict as the number of classes;
  \<^verbatim>\<open>Test-Copy1\<close> builds it with the default, before it reads the data.
\<close>

definition predict_setup ::
  "notebook \<Rightarrow> 'o env \<Rightarrow> args \<Rightarrow> checkpoint \<Rightarrow> csv_row list \<Rightarrow> error + (StressDataset \<times> loader \<times> StressModel)" where
  "predict_setup nb env a ck test_csv =
     (let c2i = ck_char2idx ck;
          test_dataset = StressDataset_init test_csv (Some c2i) TestMode
      in if nb = Test then
           (case DataLoader test_dataset (batch_size a) False of Inl e \<Rightarrow> Inl e | Inr test_loader \<Rightarrow>
            case py_max (ds_num_syllables test_dataset) of Inl e \<Rightarrow> Inl e | Inr max_num_syllables \<Rightarrow>
            case StressModel_init True (init_weights env) (length c2i)
                   (arg_embed_dim a) (arg_hidden_size a) max_num_syllables of
              Inl e \<Rightarrow> Inl e | Inr model \<Rightarrow>
            case load_state_dict model (ck_model_state_dict ck) of
              Inl e \<Rightarrow> Inl e
            | Inr model' \<Rightarrow> Inr (test_dataset, test_loader, model'))
         else
           (case StressModel_init False (init_weights env) (length c2i)
                   (arg_embed_dim a) (arg_hidden_size a) 6 of
              Inl e \<Rightarrow> Inl e | Inr model \<Rightarrow>
            case load_state_dict model (ck_model_state_dict ck) of
              Inl e \<Rightarrow> Inl e | Inr model' \<Rightarrow>
            case DataLoader test_dataset (batch_size a) False of
              Inl e \<Rightarrow> Inl e
            | Inr test_loader \<Rightarrow> Inr (test_dataset, test_loader, model')))"

record submission =
  sub_id :: "int list"
  sub_words :: "pystr list"
  sub_stress :: "int list"

definition main_predict :: "notebook \<Rightarrow> 'o env \<Rightarrow> args \<Rightarrow> checkpoint \<Rightarrow> csv_row list \<Rightarrow> error + submission" where
  "main_predict nb env a ck test_csv =
     (case predict_setup nb env a ck test_csv of
        Inl e \<Rightarrow> Inl e
      | Inr (test_dataset, test_loader, model) \<Rightarrow>
          (case predict model test_loader of
             Inl e \<Rightarrow> Inl e
           | Inr (ids_all, preds) \<Rightarrow>
               Inr \<lparr>sub_id = ids_all, sub_words = ds_words test_dataset, sub_stress = preds\<rparr>))"

subsection \<open>Notions of the specification and examples\<close>

text \<open>
  The scores of one word alone: its characters are embedded, the encoder runs over
  exactly these steps, and the linear layer maps the summary to the scores.
\<close>

definition word_logits :: "StressModel \<Rightarrow> (nat \<Rightarrow> real) \<Rightarrow> nat list \<Rightarrow> real list" where
  "word_logits model factors word =
     fc model (summary model factors
       (map (\<lambda>idx. map (embedding_weight (weights model) idx) [0..<embed_dim (shape model)]) word))"

text \<open>
  A small bidirectional model with three rows in the embedding table and two classes,
  and a data loader's worth of items, on which the theorems are exercised.
\<close>

definition example_values :: model_values where
  "example_values =
     \<lparr>embedding_weight = (\<lambda>r c. real r),
      weight_ih_l0 = (\<lambda>r c. 1), weight_hh_l0 = (\<lambda>r c. 0),
      bias_ih_l0 = (\<lambda>r. 0), bias_hh_l0 = (\<lambda>r. 0),
      weight_ih_l0_reverse = (\<lambda>r c. 1), weight_hh_l0_reverse = (\<lambda>r c. 0),
      bias_ih_l0_reverse = (\<lambda>r. 0), bias_hh_l0_reverse = (\<lambda>r. 0),
      fc_weight = (\<lambda>r c. 0), fc_bias = (\<lambda>r. real r)\<rparr>"

definition example_model :: StressModel where
  "example_model =
     \<lparr>shape = \<lparr>bidirectional = True, vocab_size = 3, embed_dim = 1, hidden_size = 1,
                num_classes = 2\<rparr>,
      weights = example_values,
      training = False\<rparr>"

text \<open>The model a setup constructs, when it constructs one.\<close>

definition constructed_model ::
  "error + (StressDataset \<times> loader \<times> loader \<times> StressModel) \<Rightarrow> error + StressModel" where
  "constructed_model r = (case r of Inl e \<Rightarrow> Inl e | Inr (ds, train_loader, val_loader, model) \<Rightarrow> Inr model)"

definition loaded_model ::
  "error + (StressDataset \<times> loader \<times> StressModel) \<Rightarrow> error + StressModel" where
  "loaded_model r = (case r of Inl e \<Rightarrow> Inl e | Inr (ds, test_loader, model) \<Rightarrow> Inr model)"

text \<open>
  A run on which the theorems are exercised: the training data of three words
  \<^verbatim>\<open>cat\<close>, \<^verbatim>\<open>apple\<close>, \<^verbatim>\<open>banana\<close> with one, two and three syllables, data to
  predict with the first two of them, an optimizer that leaves the tensors as they are,
  and no shuffling.
\<close>

definition example_train_csv :: "csv_row list" where
  "example_train_csv =
     [\<lparr>row_id = 1, row_word = [99, 97, 116], row_num_syllables = 1, row_stress = 1\<rparr>,
      \<lparr>row_id = 2, row_word = [97, 112, 112, 108, 101], row_num_syllables = 2, row_stress = 1\<rparr>,
      \<lparr>row_id = 3, row_word = [98, 97, 110, 97, 110, 97], row_num_syllables = 3, row_stress = 2\<rparr>]"

text \<open>
  Training data with one word of seven syllables, \<^verbatim>\<open>individuality\<close>, stressed on
  the fifth.
\<close>

definition example_long_csv :: "csv_row list" where
  "example_long_csv =
     [\<lparr>row_id = 1, row_word = [105, 110, 100, 105, 118, 105, 100, 117, 97, 108, 105, 116, 121],
       row_num_syllables = 7, row_stress = 5\<rparr>]"

definition example_test_csv :: "csv_row list" where
  "example_test_csv =
     [\<lparr>row_id = 1, row_word = [99, 97, 116], row_num_syllables = 1, row_stress = 0\<rparr>,
      \<lparr>row_id = 2, row_word = [97, 112, 112, 108, 101], row_num_syllables = 2, row_stress = 0\<rparr>]"

definition example_env :: "unit env" where
  "example_env =
     \<lparr>init_weights = example_values,
      shuffle_order = (\<lambda>epoch items. items),
      dropout_noise = (\<lambda>epoch bi i j. 1),
      optimizer_init = (),
      optimizer_step = (\<lambda>ost model b noise. (ost, weights model))\<rparr>"

definition example_args :: args where
  "example_args = \<lparr>batch_size = 2, epochs = 1, lr = 1 / 1000, arg_embed_dim = 1, arg_hidden_size = 1\<rparr>"

text \<open>
  The number of classes of the model the train mode constructs, of the model a
  checkpoint holds, and of the model the predict mode runs.
\<close>

definition constructed_num_classes :: "notebook \<Rightarrow> 'o env \<Rightarrow> args \<Rightarrow> csv_row list \<Rightarrow> error + nat" where
  "constructed_num_classes nb env a train_csv =
     (case constructed_model (train_setup nb env a train_csv) of
        Inl e \<Rightarrow> Inl e
      | Inr model \<Rightarrow> Inr (num_classes (shape model)))"

definition saved_num_classes :: "checkpoint \<Rightarrow> nat" where
  "saved_num_classes ck = num_classes (fst (ck_model_state_dict ck))"

definition loaded_num_classes ::
  "notebook \<Rightarrow> 'o env \<Rightarrow> args \<Rightarrow> checkpoint \<Rightarrow> csv_row list \<Rightarrow> error + nat" where
  "loaded_num_classes nb env a ck test_csv =
     (case loaded_model (predict_setup nb env a ck test_csv) of
        Inl e \<Rightarrow> Inl e
      | Inr model \<Rightarrow> Inr (num_classes (shape model)))"

text \<open>
  The last two cells of the notebooks: the train mode, and then the predict mode on the
  checkpoint it saved, with the same arguments.
\<close>

definition train_then_predict ::
  "notebook \<Rightarrow> 'o env \<Rightarrow> args \<Rightarrow> csv_row list \<Rightarrow> csv_row list \<Rightarrow> error + submission" where
  "train_then_predict nb env a train_csv test_csv =
     (case main_train nb env a train_csv of
        Inl e \<Rightarrow> Inl e
      | Inr ck \<Rightarrow> main_predict nb env a ck test_csv)"

text \<open>
  The predictions of the trained model itself, before it is saved, on the data to
  predict: the data set is encoded with the vocabulary of the training data.
\<close>

definition train_and_predict_unsaved ::
  "notebook \<Rightarrow> 'o env \<Rightarrow> args \<Rightarrow> csv_row list \<Rightarrow> csv_row list \<Rightarrow> error + int list \<times> int list" where
  "train_and_predict_unsaved nb env a train_csv test_csv =
     (case train_setup nb env a train_csv of
        Inl e \<Rightarrow> Inl e
      | Inr (train_dataset, train_loader, val_loader, model) \<Rightarrow>
          (case epoch_loop env train_loader val_loader 0 (epochs a) model (optimizer_init env) of
             Inl e \<Rightarrow> Inl e
           | Inr model' \<Rightarrow>
               (case DataLoader (StressDataset_init test_csv (Some (ds_char2idx train_dataset)) TestMode)
                       (batch_size a) False of
                  Inl e \<Rightarrow> Inl e
                | Inr test_loader \<Rightarrow> predict model' test_loader)))"

section \<open>Verified properties\<close>

subsection \<open>The vocabulary\<close>

lemma fold_insert_word: "fold Set.insert word chars = set word \<union> chars"
  by (induction word arbitrary: chars) auto

lemma collect_chars_fold:
  "fold (\<lambda>word chars. fold Set.insert word chars) words A = A \<union> (\<Union>w\<in>set words. set w)"
  by (induction words arbitrary: A) (auto simp: fold_insert_word)

lemma collect_chars_eq: "collect_chars words = (\<Union>w\<in>set words. set w)"
  by (simp add: collect_chars_def collect_chars_fold)

lemma corpus_chars_sort: "corpus_chars words = sort (remdups (concat words))"
proof -
  have "(\<Union>w\<in>set words. set w) = set (concat words)" by simp
  then show ?thesis
    unfolding corpus_chars_def by (simp only: sorted_list_of_set_sort_remdups)
qed

lemma set_corpus_chars: "set (corpus_chars words) = (\<Union>w\<in>set words. set w)"
  by (simp add: corpus_chars_def)

lemma PAD_not_char_key: "PAD \<notin> fst ` set (map (\<lambda>(idx, ch). ([ch], f idx)) (enumerate n cs))"
  by (auto simp: PAD_def)

lemma update_fresh: "k \<notin> fst ` set al \<Longrightarrow> AList.update k v al = al @ [(k, v)]"
  by (induction al) auto

lemma char2idx_eq:
  "fst (build_vocab words) =
     map (\<lambda>(idx, ch). ([ch], idx + 1)) (enumerate 0 (corpus_chars words)) @ [(PAD, 0)]"
proof -
  have "fst (build_vocab words) =
     AList.update PAD 0 (map (\<lambda>(idx, ch). ([ch], idx + 1)) (enumerate 0 (corpus_chars words)))"
    by (simp add: build_vocab_def Let_def collect_chars_eq corpus_chars_def)
  also have "\<dots> = map (\<lambda>(idx, ch). ([ch], idx + 1)) (enumerate 0 (corpus_chars words)) @ [(PAD, 0)]"
    using PAD_not_char_key[of "\<lambda>idx. idx + 1" 0 "corpus_chars words"] by (rule update_fresh)
  finally show ?thesis .
qed

lemma map_of_enum:
  "distinct cs \<Longrightarrow> i < length cs \<Longrightarrow>
   map_of (map (\<lambda>(idx, ch). ([ch], idx + 1)) (enumerate n cs) @ ps) [cs ! i] = Some (n + i + 1)"
proof (induction cs arbitrary: n i)
  case Nil then show ?case by simp
next
  case (Cons c cs)
  show ?case
  proof (cases i)
    case 0 then show ?thesis by simp
  next
    case (Suc j)
    with Cons.prems have "cs ! j \<noteq> c" "j < length cs" "distinct cs" by auto
    with Cons.IH[of j "Suc n"] Suc show ?thesis by simp
  qed
qed

lemma char2idx_nth:
  "i < length (corpus_chars words) \<Longrightarrow>
   map_of (fst (build_vocab words)) [corpus_chars words ! i] = Some (i + 1)"
  using map_of_enum[of "corpus_chars words" i 0 "[(PAD, 0)]"]
  by (simp add: char2idx_eq corpus_chars_def)

lemma map_of_enum_None:
  "k \<notin> (\<lambda>c. [c]) ` set cs \<Longrightarrow>
   map_of (map (\<lambda>(idx, ch). ([ch], f idx)) (enumerate n cs) @ ps) k = map_of ps k"
  by (induction cs arbitrary: n) auto

lemma char2idx_PAD: "map_of (fst (build_vocab words)) PAD = Some 0"
proof -
  have "PAD \<notin> (\<lambda>c. [c]) ` set (corpus_chars words)" by (auto simp: PAD_def)
  from map_of_enum_None[OF this, of "\<lambda>idx. idx + 1" 0 "[(PAD, 0)]"]
  show ?thesis unfolding char2idx_eq by simp
qed

lemma char2idx_keys:
  "map fst (fst (build_vocab words)) = map (\<lambda>c. [c]) (corpus_chars words) @ [PAD]"
proof -
  have "map fst (map (\<lambda>(idx, ch). ([ch], idx + 1)) (enumerate n cs)) = map (\<lambda>c. [c]) cs"
    for n and cs :: "nat list"
    by (induction cs arbitrary: n) auto
  then show ?thesis by (simp add: char2idx_eq)
qed

lemma char2idx_zero_iff: "map_of (fst (build_vocab words)) k = Some 0 \<longleftrightarrow> k = PAD"
proof
  assume z: "map_of (fst (build_vocab words)) k = Some 0"
  show "k = PAD"
  proof (rule ccontr)
    assume ne: "k \<noteq> PAD"
    from z have "k \<in> set (map fst (fst (build_vocab words)))"
      by (metis map_of_eq_None_iff option.distinct(1) set_map)
    with ne have "k \<in> (\<lambda>c. [c]) ` set (corpus_chars words)"
      by (auto simp: char2idx_keys)
    then obtain i where i: "i < length (corpus_chars words)" "k = [corpus_chars words ! i]"
      by (auto simp: in_set_conv_nth)
    with char2idx_nth[OF i(1)] z show False by simp
  qed
next
  assume "k = PAD" then show "map_of (fst (build_vocab words)) k = Some 0"
    by (simp add: char2idx_PAD)
qed

lemma char_index_positive:
  assumes "c \<in> (\<Union>w\<in>set words. set w)"
  shows "0 < dict_get (fst (build_vocab words)) [c] 0"
proof -
  from assms have "c \<in> set (corpus_chars words)" by (simp add: set_corpus_chars)
  then obtain i where i: "i < length (corpus_chars words)" "c = corpus_chars words ! i"
    by (auto simp: in_set_conv_nth)
  with char2idx_nth[OF i(1)] show ?thesis by (simp add: dict_get_def)
qed

lemma build_vocab_same_chars:
  "(\<Union>w\<in>set words'. set w) = (\<Union>w\<in>set words. set w) \<Longrightarrow> build_vocab words' = build_vocab words"
  by (simp add: build_vocab_def collect_chars_eq)

lemma build_vocab_empty: "build_vocab [] = ([(PAD, 0)], [(0, PAD)])"
  by (simp add: build_vocab_def collect_chars_def)

text \<open>
  Claim C6. For every collection of words the vocabulary lists exactly the distinct
  characters of the words, in code point order, followed by the padding key; the
  character at position \<open>i\<close> of that order has index \<open>i + 1\<close>, the padding key
  has index 0 and is the only key with index 0, so every character of the words has a
  positive index; two collections with the same characters give the same pair of
  dictionaries; and the empty collection gives the padding entry alone.
\<close>

theorem build_vocab_sorted_indices:
  "sorted (corpus_chars words) \<and> distinct (corpus_chars words)
   \<and> set (corpus_chars words) = (\<Union>w\<in>set words. set w)
   \<and> map fst (fst (build_vocab words)) = map (\<lambda>c. [c]) (corpus_chars words) @ [PAD]
   \<and> (\<forall>i<length (corpus_chars words).
         map_of (fst (build_vocab words)) [corpus_chars words ! i] = Some (i + 1))
   \<and> map_of (fst (build_vocab words)) PAD = Some 0
   \<and> (\<forall>k. map_of (fst (build_vocab words)) k = Some 0 \<longleftrightarrow> k = PAD)
   \<and> (\<forall>c\<in>(\<Union>w\<in>set words. set w). 0 < dict_get (fst (build_vocab words)) [c] 0)
   \<and> (\<forall>words'. (\<Union>w\<in>set words'. set w) = (\<Union>w\<in>set words. set w)
         \<longrightarrow> build_vocab words' = build_vocab words)
   \<and> build_vocab [] = ([(PAD, 0)], [(0, PAD)])"
proof (intro conjI allI impI ballI)
  show "sorted (corpus_chars words)" "distinct (corpus_chars words)"
    by (simp_all add: corpus_chars_def)
  show "set (corpus_chars words) = (\<Union>w\<in>set words. set w)"
    by (rule set_corpus_chars)
  show "map fst (fst (build_vocab words)) = map (\<lambda>c. [c]) (corpus_chars words) @ [PAD]"
    by (rule char2idx_keys)
  show "map_of (fst (build_vocab words)) [corpus_chars words ! i] = Some (i + 1)"
    if "i < length (corpus_chars words)" for i
    using that by (rule char2idx_nth)
  show "map_of (fst (build_vocab words)) PAD = Some 0"
    by (rule char2idx_PAD)
  show "map_of (fst (build_vocab words)) k = Some 0 \<longleftrightarrow> k = PAD" for k
    by (rule char2idx_zero_iff)
  show "0 < dict_get (fst (build_vocab words)) [c] 0" if "c \<in> (\<Union>w\<in>set words. set w)" for c
    using that by (rule char_index_positive)
  show "build_vocab words' = build_vocab words"
    if "(\<Union>w\<in>set words'. set w) = (\<Union>w\<in>set words. set w)" for words'
    using that by (rule build_vocab_same_chars)
  show "build_vocab [] = ([(PAD, 0)], [(0, PAD)])"
    by (rule build_vocab_empty)
qed

theorem build_vocab_sorted_indices_witness:
  "map_of (fst (build_vocab [[99, 97, 116], [97, 112, 112, 108, 101], [98, 97, 110, 97, 110, 97]])) [99]
     = Some 3
   \<and> 0 < dict_get (fst (build_vocab [[99, 97, 116], [97, 112, 112, 108, 101], [98, 97, 110, 97, 110, 97]])) [116] 0
   \<and> build_vocab [[116, 97, 99], [99, 97, 116], [110, 98, 112, 108, 101]]
     = build_vocab [[99, 97, 116], [97, 112, 112, 108, 101], [98, 97, 110, 97, 110, 97]]"
proof -
  let ?W = "[[99, 97, 116], [97, 112, 112, 108, 101], [98, 97, 110, 97, 110, 97]] :: pystr list"
  have cs: "corpus_chars ?W = [97, 98, 99, 101, 108, 110, 112, 116]"
    by (simp add: corpus_chars_sort)
  note t = build_vocab_sorted_indices[of ?W]
  from t have "\<forall>i<length (corpus_chars ?W).
         map_of (fst (build_vocab ?W)) [corpus_chars ?W ! i] = Some (i + 1)"
    by (elim conjE)
  from this[rule_format, of 2]
  have a: "map_of (fst (build_vocab ?W)) [99] = Some 3"
    by (simp add: cs)
  from t have "\<forall>c\<in>(\<Union>w\<in>set ?W. set w). 0 < dict_get (fst (build_vocab ?W)) [c] 0"
    by (elim conjE)
  from this[rule_format, of 116]
  have b: "0 < dict_get (fst (build_vocab ?W)) [116] 0" by simp
  from t have "\<forall>words'. (\<Union>w\<in>set words'. set w) = (\<Union>w\<in>set ?W. set w)
         \<longrightarrow> build_vocab words' = build_vocab ?W"
    by (elim conjE)
  from this[rule_format, of "[[116, 97, 99], [99, 97, 116], [110, 98, 112, 108, 101]]"]
  have c: "build_vocab [[116, 97, 99], [99, 97, 116], [110, 98, 112, 108, 101]] = build_vocab ?W"
    by (simp add: insert_commute)
  from a b c show ?thesis by (intro conjI)
qed

subsection \<open>The sequence encoder\<close>

text \<open>
  Claim C7. For every word and every dictionary the encoder returns one index per
  character: the index the dictionary gives the character, and 0 for a character the
  dictionary does not have. The function has no error result: it is total.
\<close>

theorem encode_word_total:
  "length (encode_word word char2idx) = length word
   \<and> (\<forall>i<length word.
        encode_word word char2idx ! i
          = (case map_of char2idx [word ! i] of Some idx \<Rightarrow> idx | None \<Rightarrow> 0))"
  by (simp add: encode_word_def dict_get_def)

theorem encode_word_total_witness:
  "length (encode_word [99, 97, 122] [([97], 1::nat), ([99], 2), (PAD, 0)]) = 3
   \<and> encode_word [99, 97, 122] [([97], 1::nat), ([99], 2), (PAD, 0)] ! 2 = 0
   \<and> encode_word [99, 97, 122] [([97], 1::nat), ([99], 2), (PAD, 0)] ! 0 = 2"
proof -
  note t = encode_word_total[of "[99, 97, 122]" "[([97], 1::nat), ([99], 2), (PAD, 0)]"]
  from t have l: "length (encode_word [99, 97, 122] [([97], 1::nat), ([99], 2), (PAD, 0)]) = 3" by simp
  from t have "\<forall>i<3. encode_word [99, 97, 122] [([97], 1::nat), ([99], 2), (PAD, 0)] ! i
          = (case map_of [([97], 1::nat), ([99], 2), (PAD, 0)] [[99, 97, 122] ! i] of Some idx \<Rightarrow> idx | None \<Rightarrow> 0)"
    by simp
  then have "encode_word [99, 97, 122] [([97], 1::nat), ([99], 2), (PAD, 0)] ! 2
          = (case map_of [([97], 1::nat), ([99], 2), (PAD, 0)] [[99, 97, 122] ! 2] of Some idx \<Rightarrow> idx | None \<Rightarrow> 0)"
       "encode_word [99, 97, 122] [([97], 1::nat), ([99], 2), (PAD, 0)] ! 0
          = (case map_of [([97], 1::nat), ([99], 2), (PAD, 0)] [[99, 97, 122] ! 0] of Some idx \<Rightarrow> idx | None \<Rightarrow> 0)"
    by simp_all
  then show ?thesis using l by (simp add: PAD_def)
qed

subsection \<open>Slicing, the scan for the largest score and the decoding step\<close>

lemma slice_to_nonneg: "0 \<le> k \<Longrightarrow> slice_to k xs = take (nat k) xs"
  by (simp add: slice_to_def)

lemma slice_to_beyond: "int (length xs) \<le> k \<Longrightarrow> slice_to k xs = xs"
  by (simp add: slice_to_def)

lemma first_max_unique:
  assumes "first_max xs p" "first_max xs q"
  shows "p = q"
proof (rule ccontr)
  assume "p \<noteq> q"
  then consider "p < q" | "q < p" by linarith
  then show False
  proof cases
    case 1
    with assms(2) have "xs ! p < xs ! q" by (simp add: first_max_def)
    moreover from assms have "xs ! q \<le> xs ! p" by (simp add: first_max_def)
    ultimately show False by simp
  next
    case 2
    with assms(1) have "xs ! q < xs ! p" by (simp add: first_max_def)
    moreover from assms have "xs ! p \<le> xs ! q" by (simp add: first_max_def)
    ultimately show False by simp
  qed
qed

lemma argmax_scan_first_max:
  assumes "besti < length pre" "pre ! besti = best"
    and "\<forall>j<length pre. pre ! j \<le> best" "\<forall>j<besti. pre ! j < best"
  shows "first_max (pre @ xs) (argmax_scan best besti (length pre) xs)"
  using assms
proof (induction xs arbitrary: pre besti best)
  case Nil
  then show ?case by (simp add: first_max_def)
next
  case (Cons x xs)
  show ?case
  proof (cases "best < x")
    case True
    have "first_max ((pre @ [x]) @ xs) (argmax_scan x (length pre) (length (pre @ [x])) xs)"
    proof (rule Cons.IH)
      show "length pre < length (pre @ [x])" by simp
      show "(pre @ [x]) ! length pre = x" by simp
      show "\<forall>j<length (pre @ [x]). (pre @ [x]) ! j \<le> x"
      proof (intro allI impI)
        fix j assume "j < length (pre @ [x])"
        then consider "j < length pre" | "j = length pre" by fastforce
        then show "(pre @ [x]) ! j \<le> x"
        proof cases
          case 1
          with Cons.prems(3) have "pre ! j \<le> best" by simp
          with True 1 show ?thesis by (simp add: nth_append)
        next
          case 2 then show ?thesis by simp
        qed
      qed
      show "\<forall>j<length pre. (pre @ [x]) ! j < x"
      proof (intro allI impI)
        fix j assume j: "j < length pre"
        with Cons.prems(3) have "pre ! j \<le> best" by simp
        with True j show "(pre @ [x]) ! j < x" by (simp add: nth_append)
      qed
    qed
    with True show ?thesis by simp
  next
    case False
    have "first_max ((pre @ [x]) @ xs) (argmax_scan best besti (length (pre @ [x])) xs)"
    proof (rule Cons.IH)
      show "besti < length (pre @ [x])" using Cons.prems(1) by simp
      show "(pre @ [x]) ! besti = best" using Cons.prems(1,2) by (simp add: nth_append)
      show "\<forall>j<length (pre @ [x]). (pre @ [x]) ! j \<le> best"
      proof (intro allI impI)
        fix j assume "j < length (pre @ [x])"
        then consider "j < length pre" | "j = length pre" by fastforce
        then show "(pre @ [x]) ! j \<le> best"
        proof cases
          case 1
          with Cons.prems(3) show ?thesis by (simp add: nth_append)
        next
          case 2 with False show ?thesis by simp
        qed
      qed
      show "\<forall>j<besti. (pre @ [x]) ! j < best"
        using Cons.prems(1,4) by (simp add: nth_append)
    qed
    with False show ?thesis by simp
  qed
qed

lemma argmax_first_max: "xs \<noteq> [] \<Longrightarrow> \<exists>p. argmax xs = Inr p \<and> first_max xs p"
proof (cases xs)
  case Nil
  assume "xs \<noteq> []" with Nil show ?thesis by simp
next
  case (Cons x rest)
  have "first_max ([x] @ rest) (argmax_scan x 0 (length [x]) rest)"
    by (rule argmax_scan_first_max) simp_all
  with Cons show ?thesis by (simp add: argmax_def)
qed

lemma argmax_empty: "argmax [] = Inl EmptyArgmax"
  by (simp add: argmax_def)

lemma decode_first_max:
  assumes "1 \<le> k" "k \<le> int (length L)"
  shows "\<exists>p. decode L k = Inr (int p + 1) \<and> first_max (take (nat k) L) p
           \<and> (\<forall>q. first_max (take (nat k) L) q \<longrightarrow> q = p)
           \<and> 1 \<le> int p + 1 \<and> int p + 1 \<le> k
           \<and> (\<forall>s. evaluate_example L k s = Inr (int p = s - 1))"
proof -
  from assms have ne: "take (nat k) L \<noteq> []" by auto
  from argmax_first_max[OF ne] obtain p
    where p: "argmax (take (nat k) L) = Inr p" "first_max (take (nat k) L) p" by blast
  from p(2) have "p < length (take (nat k) L)" by (simp add: first_max_def)
  with assms have le: "int p + 1 \<le> k" by simp
  from assms have sl: "slice_to k L = take (nat k) L" by (simp add: slice_to_nonneg)
  have d: "decode L k = Inr (int p + 1)"
    by (simp add: decode_def sl p(1))
  have e: "\<forall>s. evaluate_example L k s = Inr (int p = s - 1)"
    by (simp add: evaluate_example_def sl p(1))
  have u: "\<forall>q. first_max (take (nat k) L) q \<longrightarrow> q = p"
    using first_max_unique[OF _ p(2)] by (intro allI impI)
  have one: "1 \<le> int p + 1" by simp
  have "decode L k = Inr (int p + 1) \<and> first_max (take (nat k) L) p
           \<and> (\<forall>q. first_max (take (nat k) L) q \<longrightarrow> q = p)
           \<and> 1 \<le> int p + 1 \<and> int p + 1 \<le> k
           \<and> (\<forall>s. evaluate_example L k s = Inr (int p = s - 1))"
    using d p(2) u one le e by blast
  then show ?thesis by (rule exI)
qed

lemma decode_prefix_only:
  assumes "0 \<le> k" "take (nat k) L' = take (nat k) L"
  shows "decode L' k = decode L k"
  using assms by (simp add: decode_def slice_to_nonneg)

lemma decode_example: "decode [0.1, 5.0, 0.2, 9.9, 0.0, 0.0] 3 = Inr 2"
  by (simp add: decode_def slice_to_def argmax_def)

text \<open>
  Claim C2. For a syllable count \<open>k\<close> with \<open>1 \<le> k\<close> and a row of scores of width at
  least \<open>k\<close>, the decoding step returns \<open>p + 1\<close> where \<open>p\<close> is the lowest index of
  a maximum of the first \<open>k\<close> scores: no earlier score is as large, so a tie goes to
  the first occurrence, and \<open>p\<close> is the only such index. The result lies in
  \<open>[1, k]\<close>, the evaluation loop compares the same \<open>p\<close> with the label minus one,
  and a row that agrees on the first \<open>k\<close> scores decodes to the same position: no
  score at an index from \<open>k\<close> on is read. The scores of the example decode to 2.
\<close>

theorem decode_restricted_argmax:
  "(1 \<le> k \<and> k \<le> int (length L) \<longrightarrow>
      (\<exists>p. decode L k = Inr (int p + 1) \<and> first_max (take (nat k) L) p
           \<and> (\<forall>q. first_max (take (nat k) L) q \<longrightarrow> q = p)
           \<and> 1 \<le> int p + 1 \<and> int p + 1 \<le> k
           \<and> (\<forall>s. evaluate_example L k s = Inr (int p = s - 1)))
    \<and> (\<forall>L'. take (nat k) L' = take (nat k) L \<longrightarrow> decode L' k = decode L k))
   \<and> decode [0.1, 5.0, 0.2, 9.9, 0.0, 0.0] 3 = Inr 2"
proof (intro conjI impI allI)
  assume "1 \<le> k \<and> k \<le> int (length L)"
  then show "\<exists>p. decode L k = Inr (int p + 1) \<and> first_max (take (nat k) L) p
           \<and> (\<forall>q. first_max (take (nat k) L) q \<longrightarrow> q = p)
           \<and> 1 \<le> int p + 1 \<and> int p + 1 \<le> k
           \<and> (\<forall>s. evaluate_example L k s = Inr (int p = s - 1))"
    by (intro decode_first_max) simp_all
next
  fix L' assume "1 \<le> k \<and> k \<le> int (length L)" "take (nat k) L' = take (nat k) L"
  then show "decode L' k = decode L k" by (intro decode_prefix_only) simp_all
next
  show "decode [0.1, 5.0, 0.2, 9.9, 0.0, 0.0] 3 = Inr 2" by (rule decode_example)
qed

theorem decode_restricted_argmax_witness:
  "decode [1, 5, 5, 0, 0, 0] 3 = decode [1, 5, 5, 9.9, 0, 0] 3
   \<and> first_max (take (nat 3) [1, 5, 5, 9.9, 0, 0]) 1
   \<and> decode [1, 5, 5, 9.9, 0, 0] 3 = Inr 2"
proof -
  let ?L = "[1, 5, 5, 9.9, 0, 0] :: real list"
  have h: "(1::int) \<le> 3 \<and> 3 \<le> int (length ?L)" by simp
  note t = decode_restricted_argmax[of 3 ?L, THEN conjunct1, rule_format, OF h]
  have v: "decode ?L 3 = Inr 2"
    by (simp add: decode_def slice_to_def argmax_def)
  from t obtain p where p: "decode ?L 3 = Inr (int p + 1)" "first_max (take (nat 3) ?L) p"
    by blast
  from p(1) v have "p = 1" by simp
  with p(2) have a: "first_max (take (nat 3) ?L) 1" by simp
  from t have "\<forall>L'. take (nat 3) L' = take (nat 3) ?L \<longrightarrow> decode L' 3 = decode ?L 3"
    by blast
  from this[rule_format, of "[1, 5, 5, 0, 0, 0]"]
  have b: "decode [1, 5, 5, 0, 0, 0] 3 = decode ?L 3" by simp
  from a b v show ?thesis by (intro conjI)
qed

subsection \<open>The masked loss\<close>

lemma sum_list_exp_nth: "(\<Sum>v\<leftarrow>x. exp v) = (\<Sum>j<length x. exp (x ! j))"
proof -
  have "(\<Sum>v\<leftarrow>x. exp v) = (\<Sum>j = 0..<length x. exp (x ! j))"
    by (simp add: sum_list_sum_nth)
  then show ?thesis by (simp add: atLeast0LessThan)
qed

lemma cross_entropy_in_range:
  assumes "0 \<le> t" "t < int (length x)"
  shows "cross_entropy x t = Inr (Finite (categorical_cross_entropy x (nat t)))"
  using assms by (simp add: cross_entropy_def categorical_cross_entropy_def sum_list_exp_nth)

lemma cross_entropy_out_of_range:
  assumes "t < 0 \<or> int (length x) \<le> t" "t \<noteq> - 100"
  shows "cross_entropy x t = Inl TargetOutOfBounds"
  using assms by (simp add: cross_entropy_def)

lemma cross_entropy_error: "cross_entropy x t = Inl e \<Longrightarrow> e = TargetOutOfBounds"
  by (simp add: cross_entropy_def split: if_splits)

lemma example_loss_valid:
  assumes "1 \<le> s" "s \<le> k" "k \<le> int (length L)"
  shows "example_loss L k s = Inr (Finite (categorical_cross_entropy (take (nat k) L) (nat (s - 1))))"
proof -
  from assms have sl: "slice_to k L = take (nat k) L" by (simp add: slice_to_nonneg)
  from assms have "0 \<le> s - 1" "s - 1 < int (length (take (nat k) L))" by simp_all
  from cross_entropy_in_range[OF this] show ?thesis
    by (simp add: example_loss_def sl)
qed

lemma example_loss_invalid:
  assumes "0 \<le> k" "k = 0 \<or> s < 1 \<or> k < s" "s \<noteq> - 99"
  shows "example_loss L k s = Inl TargetOutOfBounds"
proof -
  from assms have sl: "slice_to k L = take (nat k) L" by (simp add: slice_to_nonneg)
  from assms have "s - 1 < 0 \<or> int (length (take (nat k) L)) \<le> s - 1" by auto
  moreover from assms have "s - 1 \<noteq> - 100" by simp
  ultimately have "cross_entropy (take (nat k) L) (s - 1) = Inl TargetOutOfBounds"
    by (rule cross_entropy_out_of_range)
  then show ?thesis by (simp add: example_loss_def sl)
qed

lemma example_loss_error: "example_loss L k s = Inl e \<Longrightarrow> e = TargetOutOfBounds"
  by (simp add: example_loss_def cross_entropy_error)

lemma loss_loop_valid:
  assumes "length stresses = length logits" "length num_syllables = length logits"
    and "\<forall>i<length logits. 1 \<le> stresses ! i \<and> stresses ! i \<le> num_syllables ! i
            \<and> num_syllables ! i \<le> int (length (logits ! i))"
  shows "loss_loop logits stresses num_syllables (Finite a) =
           Inr (Finite (a + (\<Sum>i<length logits.
              categorical_cross_entropy (take (nat (num_syllables ! i)) (logits ! i)) (nat (stresses ! i - 1)))))"
  using assms
proof (induction logits arbitrary: stresses num_syllables a)
  case Nil
  then show ?case by simp
next
  case (Cons l ls)
  from Cons.prems(1) obtain s ss where ss: "stresses = s # ss" "length ss = length ls"
    by (cases stresses) auto
  from Cons.prems(2) obtain k ks where ks: "num_syllables = k # ks" "length ks = length ls"
    by (cases num_syllables) auto
  from Cons.prems(3)[rule_format, of 0] have v0: "1 \<le> s" "s \<le> k" "k \<le> int (length l)"
    by (simp_all add: ss ks)
  have vs: "\<forall>i<length ls. 1 \<le> ss ! i \<and> ss ! i \<le> ks ! i \<and> ks ! i \<le> int (length (ls ! i))"
  proof (intro allI impI)
    fix i assume "i < length ls"
    then have "Suc i < length (l # ls)" by simp
    from Cons.prems(3)[rule_format, OF this]
    show "1 \<le> ss ! i \<and> ss ! i \<le> ks ! i \<and> ks ! i \<le> int (length (ls ! i))"
      by (simp add: ss ks)
  qed
  let ?c = "\<lambda>l k s. categorical_cross_entropy (take (nat k) l) (nat (s - 1))"
  have "loss_loop (l # ls) stresses num_syllables (Finite a)
          = loss_loop ls ss ks (Finite (a + ?c l k s))"
    by (simp add: ss ks example_loss_valid[OF v0])
  also have "\<dots> = Inr (Finite (a + ?c l k s + (\<Sum>i<length ls. ?c (ls ! i) (ks ! i) (ss ! i))))"
    by (rule Cons.IH[OF ss(2) ks(2) vs])
  also have "a + ?c l k s + (\<Sum>i<length ls. ?c (ls ! i) (ks ! i) (ss ! i))
      = a + (\<Sum>i<length (l # ls). ?c ((l # ls) ! i) (num_syllables ! i) (stresses ! i))"
    unfolding ss ks length_Cons sum.lessThan_Suc_shift nth_Cons_0 nth_Cons_Suc
    by (simp only: add.assoc)
  finally show ?case .
qed

lemma loss_loop_slices:
  assumes "length logits' = length logits"
    and "\<forall>i<length logits. slice_to (num_syllables ! i) (logits' ! i) = slice_to (num_syllables ! i) (logits ! i)"
    and "length num_syllables = length logits"
  shows "loss_loop logits' stresses num_syllables acc = loss_loop logits stresses num_syllables acc"
  using assms
proof (induction logits arbitrary: logits' stresses num_syllables acc)
  case Nil
  then show ?case by simp
next
  case (Cons l ls)
  from Cons.prems(1) obtain l' ls' where l': "logits' = l' # ls'" "length ls' = length ls"
    by (cases logits') auto
  from Cons.prems(3) obtain k ks where ks: "num_syllables = k # ks" "length ks = length ls"
    by (cases num_syllables) auto
  from Cons.prems(2)[rule_format, of 0] have s0: "slice_to k l' = slice_to k l"
    by (simp add: l' ks)
  have sl: "\<forall>i<length ls. slice_to (ks ! i) (ls' ! i) = slice_to (ks ! i) (ls ! i)"
  proof (intro allI impI)
    fix i assume "i < length ls"
    then have "Suc i < length (l # ls)" by simp
    from Cons.prems(2)[rule_format, OF this]
    show "slice_to (ks ! i) (ls' ! i) = slice_to (ks ! i) (ls ! i)" by (simp add: l' ks)
  qed
  show ?case
  proof (cases stresses)
    case Nil
    then show ?thesis by (simp add: l' ks)
  next
    case (Cons s ss)
    have e: "example_loss l' k s = example_loss l k s"
      by (simp add: example_loss_def s0)
    show ?thesis
      using Cons.IH[OF l'(2) sl ks(2)]
      by (simp add: l' ks Cons e split: sum.splits)
  qed
qed

lemma masked_loss_slices:
  assumes "length logits' = length logits"
    and "\<forall>i<length logits. slice_to (num_syllables ! i) (logits' ! i) = slice_to (num_syllables ! i) (logits ! i)"
    and "length num_syllables = length logits"
  shows "masked_cross_entropy_loss logits' stresses num_syllables
       = masked_cross_entropy_loss logits stresses num_syllables"
  unfolding masked_cross_entropy_loss_def loss_loop_slices[OF assms] assms(1) ..

lemma loss_loop_invalid:
  assumes "length stresses = length logits" "length num_syllables = length logits"
    and "i < length logits" "0 \<le> num_syllables ! i"
    and "num_syllables ! i = 0 \<or> stresses ! i < 1 \<or> num_syllables ! i < stresses ! i"
    and "stresses ! i \<noteq> - 99"
  shows "loss_loop logits stresses num_syllables acc = Inl TargetOutOfBounds"
  using assms
proof (induction logits arbitrary: stresses num_syllables acc i)
  case Nil
  then show ?case by simp
next
  case (Cons l ls)
  from Cons.prems(1) obtain s ss where ss: "stresses = s # ss" "length ss = length ls"
    by (cases stresses) auto
  from Cons.prems(2) obtain k ks where ks: "num_syllables = k # ks" "length ks = length ls"
    by (cases num_syllables) auto
  show ?case
  proof (cases "example_loss l k s")
    case (Inl e)
    with example_loss_error[OF Inl] show ?thesis by (simp add: ss ks)
  next
    case (Inr v)
    have "i \<noteq> 0"
    proof
      assume "i = 0"
      with Cons.prems ss ks have "example_loss l k s = Inl TargetOutOfBounds"
        by (intro example_loss_invalid) simp_all
      with Inr show False by simp
    qed
    then obtain j where j: "i = Suc j" by (cases i) auto
    have "loss_loop ls ss ks (loss_add acc v) = Inl TargetOutOfBounds"
      using Cons.prems(3-6) by (intro Cons.IH[OF ss(2) ks(2), of j]) (simp_all add: j ss ks)
    with Inr show ?thesis by (simp add: ss ks)
  qed
qed


lemma masked_loss_valid:
  assumes "logits \<noteq> []" "length stresses = length logits" "length num_syllables = length logits"
    and "\<forall>i<length logits. 1 \<le> stresses ! i \<and> stresses ! i \<le> num_syllables ! i
            \<and> num_syllables ! i \<le> int (length (logits ! i))"
  shows "masked_cross_entropy_loss logits stresses num_syllables =
           Inr (Finite ((\<Sum>i<length logits.
              categorical_cross_entropy (take (nat (num_syllables ! i)) (logits ! i)) (nat (stresses ! i - 1)))
              / real (length logits)))"
  using assms(1) by (simp add: masked_cross_entropy_loss_def loss_loop_valid[OF assms(2-4)])

lemma masked_loss_prefixes:
  assumes "length num_syllables = length logits" "\<forall>i<length logits. 0 \<le> num_syllables ! i"
    and "length logits' = length logits"
    and "\<forall>i<length logits. take (nat (num_syllables ! i)) (logits' ! i) = take (nat (num_syllables ! i)) (logits ! i)"
  shows "masked_cross_entropy_loss logits' stresses num_syllables
       = masked_cross_entropy_loss logits stresses num_syllables"
proof (rule masked_loss_slices[OF assms(3) _ assms(1)])
  show "\<forall>i<length logits. slice_to (num_syllables ! i) (logits' ! i) = slice_to (num_syllables ! i) (logits ! i)"
    using assms(2,4) by (simp add: slice_to_nonneg)
qed

lemma masked_loss_update:
  assumes "length num_syllables = length logits" "\<forall>i<length logits. 0 \<le> num_syllables ! i"
    and "i < length logits" "nat (num_syllables ! i) \<le> j"
  shows "masked_cross_entropy_loss (logits[i := (logits ! i)[j := x]]) stresses num_syllables
       = masked_cross_entropy_loss logits stresses num_syllables"
proof (rule masked_loss_prefixes[OF assms(1,2)])
  show "length (logits[i := (logits ! i)[j := x]]) = length logits" by simp
  show "\<forall>i'<length logits. take (nat (num_syllables ! i')) (logits[i := (logits ! i)[j := x]] ! i')
          = take (nat (num_syllables ! i')) (logits ! i')"
  proof (intro allI impI)
    fix i' assume "i' < length logits"
    show "take (nat (num_syllables ! i')) (logits[i := (logits ! i)[j := x]] ! i')
          = take (nat (num_syllables ! i')) (logits ! i')"
    proof (cases "i' = i")
      case True
      with assms(3,4) show ?thesis by (simp add: take_update_cancel)
    next
      case False
      then show ?thesis by simp
    qed
  qed
qed

text \<open>
  Claim C3. For a batch with at least one row in which every label \<open>s\<close> lies in
  \<open>[1, k]\<close> and every row of scores is at least as wide as its syllable count
  \<open>k\<close>, the masked loss is the arithmetic mean over the batch of the categorical
  cross-entropy of the first \<open>k\<close> scores of the row and the class index
  \<open>s - 1\<close>. The scores from index \<open>k\<close> on are not part of the computation: a batch
  that agrees on the first \<open>k\<close> scores of every row has the same loss, so the loss is
  constant in each such score and its derivative with respect to it is 0. (The mean
  needs a row: the source divides by the batch size, and the data loader yields no
  empty batch.)
\<close>

theorem masked_loss_mean_cross_entropy:
  assumes "logits \<noteq> []" "length stresses = length logits" "length num_syllables = length logits"
    and "\<forall>i<length logits. 1 \<le> stresses ! i \<and> stresses ! i \<le> num_syllables ! i
            \<and> num_syllables ! i \<le> int (length (logits ! i))"
  shows "masked_cross_entropy_loss logits stresses num_syllables =
           Inr (Finite ((\<Sum>i<length logits.
              categorical_cross_entropy (take (nat (num_syllables ! i)) (logits ! i)) (nat (stresses ! i - 1)))
              / real (length logits)))
    \<and> (\<forall>logits'. length logits' = length logits
          \<and> (\<forall>i<length logits. take (nat (num_syllables ! i)) (logits' ! i)
                                  = take (nat (num_syllables ! i)) (logits ! i))
          \<longrightarrow> masked_cross_entropy_loss logits' stresses num_syllables
              = masked_cross_entropy_loss logits stresses num_syllables)
    \<and> (\<forall>i<length logits. \<forall>j\<ge>nat (num_syllables ! i). \<forall>x.
          masked_cross_entropy_loss (logits[i := (logits ! i)[j := x]]) stresses num_syllables
            = masked_cross_entropy_loss logits stresses num_syllables
          \<and> ((\<lambda>y. loss_value (masked_cross_entropy_loss (logits[i := (logits ! i)[j := y]])
                                 stresses num_syllables))
               has_real_derivative 0) (at x))"
proof -
  have nn: "\<forall>i<length logits. 0 \<le> num_syllables ! i"
  proof (intro allI impI)
    fix i assume "i < length logits"
    from assms(4)[rule_format, OF this] show "0 \<le> num_syllables ! i" by simp
  qed
  have a: "masked_cross_entropy_loss logits stresses num_syllables =
           Inr (Finite ((\<Sum>i<length logits.
              categorical_cross_entropy (take (nat (num_syllables ! i)) (logits ! i)) (nat (stresses ! i - 1)))
              / real (length logits)))"
    by (rule masked_loss_valid[OF assms])
  have b: "masked_cross_entropy_loss logits' stresses num_syllables
              = masked_cross_entropy_loss logits stresses num_syllables"
    if "length logits' = length logits
          \<and> (\<forall>i<length logits. take (nat (num_syllables ! i)) (logits' ! i)
                                  = take (nat (num_syllables ! i)) (logits ! i))" for logits'
    using that by (intro masked_loss_prefixes[OF assms(3) nn]) simp_all
  have c: "masked_cross_entropy_loss (logits[i := (logits ! i)[j := x]]) stresses num_syllables
            = masked_cross_entropy_loss logits stresses num_syllables"
    if "i < length logits" "nat (num_syllables ! i) \<le> j" for i j x
    by (rule masked_loss_update[OF assms(3) nn that])
  have d: "((\<lambda>y. loss_value (masked_cross_entropy_loss (logits[i := (logits ! i)[j := y]])
                                 stresses num_syllables))
               has_real_derivative 0) (at x)"
    if "i < length logits" "nat (num_syllables ! i) \<le> j" for i j x
  proof -
    have "(\<lambda>y. loss_value (masked_cross_entropy_loss (logits[i := (logits ! i)[j := y]])
                                 stresses num_syllables))
        = (\<lambda>y. loss_value (masked_cross_entropy_loss logits stresses num_syllables))"
      by (rule ext) (simp only: c[OF that])
    then show ?thesis by simp
  qed
  from a b c d show ?thesis by blast
qed


theorem masked_loss_mean_cross_entropy_witness:
  "masked_cross_entropy_loss [[0, 0, 5], [0, 0, 0]] [1, 2] [2, 3] = Inr (Finite ((ln 2 + ln 3) / 2))
   \<and> masked_cross_entropy_loss [[0, 0, 7], [0, 0, 0]] [1, 2] [2, 3]
     = masked_cross_entropy_loss [[0, 0, 5], [0, 0, 0]] [1, 2] [2, 3]
   \<and> masked_cross_entropy_loss ([[0, 0, 5], [0, 0, 0]][0 := ([[0, 0, 5], [0, 0, 0]] ! 0)[2 := 9]]) [1, 2] [2, 3]
     = masked_cross_entropy_loss [[0, 0, 5], [0, 0, 0]] [1, 2] [2, 3]"
proof -
  let ?l = "[[0, 0, 5], [0, 0, 0]] :: real list list"
  let ?s = "[1, 2] :: int list"
  let ?k = "[2, 3] :: int list"
  have h1: "?l \<noteq> []" by simp
  have h2: "length ?s = length ?l" by simp
  have h3: "length ?k = length ?l" by simp
  have h4: "\<forall>i<length ?l. 1 \<le> ?s ! i \<and> ?s ! i \<le> ?k ! i \<and> ?k ! i \<le> int (length (?l ! i))"
    by (simp add: less_Suc_eq)
  note t = masked_loss_mean_cross_entropy[OF h1 h2 h3 h4]
  from t have "masked_cross_entropy_loss ?l ?s ?k =
           Inr (Finite ((\<Sum>i<length ?l.
              categorical_cross_entropy (take (nat (?k ! i)) (?l ! i)) (nat (?s ! i - 1)))
              / real (length ?l)))"
    by (elim conjE)
  also have "(\<Sum>i<length ?l.
              categorical_cross_entropy (take (nat (?k ! i)) (?l ! i)) (nat (?s ! i - 1)))
       = ln 2 + ln 3"
    by (simp add: categorical_cross_entropy_def numeral_2_eq_2 numeral_3_eq_3 ln_div)
  finally have a: "masked_cross_entropy_loss ?l ?s ?k = Inr (Finite ((ln 2 + ln 3) / 2))"
    by simp
  from t have "\<forall>logits'. length logits' = length ?l
          \<and> (\<forall>i<length ?l. take (nat (?k ! i)) (logits' ! i) = take (nat (?k ! i)) (?l ! i))
          \<longrightarrow> masked_cross_entropy_loss logits' ?s ?k = masked_cross_entropy_loss ?l ?s ?k"
    by (elim conjE)
  from this[rule_format, of "[[0, 0, 7], [0, 0, 0]]"]
  have b: "masked_cross_entropy_loss [[0, 0, 7], [0, 0, 0]] ?s ?k = masked_cross_entropy_loss ?l ?s ?k"
    by (simp add: less_Suc_eq)
  from t have "\<forall>i<length ?l. \<forall>j\<ge>nat (?k ! i). \<forall>x.
          masked_cross_entropy_loss (?l[i := (?l ! i)[j := x]]) ?s ?k
            = masked_cross_entropy_loss ?l ?s ?k
          \<and> ((\<lambda>y. loss_value (masked_cross_entropy_loss (?l[i := (?l ! i)[j := y]]) ?s ?k))
               has_real_derivative 0) (at x)"
    by (elim conjE)
  from this[rule_format, of 0 2 9]
  have c: "masked_cross_entropy_loss (?l[0 := (?l ! 0)[2 := 9]]) ?s ?k = masked_cross_entropy_loss ?l ?s ?k"
    by simp
  from a b c show ?thesis by (intro conjI)
qed


subsection \<open>Examples that break the label or the class count precondition\<close>

lemma decode_zero: "decode L 0 = Inl EmptyArgmax"
  by (simp add: decode_def slice_to_def argmax_def)

lemma evaluate_example_zero: "evaluate_example L 0 s = Inl EmptyArgmax"
  by (simp add: evaluate_example_def slice_to_def argmax_def)

lemma masked_loss_invalid:
  assumes "length stresses = length logits" "length num_syllables = length logits"
    and "i < length logits" "0 \<le> num_syllables ! i"
    and "num_syllables ! i = 0 \<or> stresses ! i < 1 \<or> num_syllables ! i < stresses ! i"
    and "stresses ! i \<noteq> - 99"
  shows "masked_cross_entropy_loss logits stresses num_syllables = Inl TargetOutOfBounds"
  by (simp add: masked_cross_entropy_loss_def loss_loop_invalid[OF assms])

text \<open>
  Claim C10. When the syllable count \<open>k\<close> of an example exceeds the width \<open>C\<close> of its
  row of scores, the slice is the whole row, and decoding and the loss of the row are
  what they are for the count \<open>C\<close>: the decoding step returns a position in
  \<open>[1, C]\<close> without an error (for a row with at least one score), and for a label
  \<open>s \<ge> 1\<close> the loss fails exactly when the class index \<open>s - 1\<close> is at least \<open>C\<close>;
  below \<open>C\<close> it is the cross-entropy over the whole row. Neither step looks at \<open>k\<close>
  beyond the slice.
\<close>

theorem syllable_count_beyond_classes:
  "int (length L) < k \<longrightarrow>
     slice_to k L = L
     \<and> decode L k = decode L (int (length L))
     \<and> example_loss L k s = example_loss L (int (length L)) s
     \<and> (L \<noteq> [] \<longrightarrow> (\<exists>p. decode L k = Inr (int p + 1) \<and> first_max L p
                           \<and> 1 \<le> int p + 1 \<and> int p + 1 \<le> int (length L)))
     \<and> (1 \<le> s \<longrightarrow>
           (example_loss L k s = Inl TargetOutOfBounds \<longleftrightarrow> int (length L) \<le> s - 1)
           \<and> (s - 1 < int (length L) \<longrightarrow>
                example_loss L k s = Inr (Finite (categorical_cross_entropy L (nat (s - 1))))))"
proof (intro impI conjI)
  assume k: "int (length L) < k"
  then show sl: "slice_to k L = L" by (simp add: slice_to_beyond)
  have sl': "slice_to (int (length L)) L = L" by (simp add: slice_to_beyond)
  show "decode L k = decode L (int (length L))" by (simp add: decode_def sl sl')
  show "example_loss L k s = example_loss L (int (length L)) s"
    by (simp add: example_loss_def sl sl')
  {
    assume "L \<noteq> []"
    from argmax_first_max[OF this] obtain p where p: "argmax L = Inr p" "first_max L p" by blast
    from p(2) have "p < length L" by (simp add: first_max_def)
    then have le: "int p + 1 \<le> int (length L)" by simp
    have one: "1 \<le> int p + 1" by simp
    have "decode L k = Inr (int p + 1)" by (simp add: decode_def sl p(1))
    with p(2) one le show "\<exists>p. decode L k = Inr (int p + 1) \<and> first_max L p
                           \<and> 1 \<le> int p + 1 \<and> int p + 1 \<le> int (length L)"
      by blast
  }
  {
    assume s: "1 \<le> s"
    have el: "example_loss L k s = cross_entropy L (s - 1)"
      by (simp add: example_loss_def sl)
    from s show "example_loss L k s = Inl TargetOutOfBounds \<longleftrightarrow> int (length L) \<le> s - 1"
      unfolding el by (simp add: cross_entropy_def)
    {
      assume "s - 1 < int (length L)"
      with s show "example_loss L k s = Inr (Finite (categorical_cross_entropy L (nat (s - 1))))"
        unfolding el by (intro cross_entropy_in_range) simp_all
    }
  }
qed

theorem syllable_count_beyond_classes_witness:
  "decode [1, 3, 2] 5 = Inr 2
   \<and> example_loss [1, 3, 2] 5 4 = Inl TargetOutOfBounds
   \<and> example_loss [1, 3, 2] 5 2 = Inr (Finite (categorical_cross_entropy [1, 3, 2] 1))"
proof -
  let ?L = "[1, 3, 2] :: real list"
  have h: "int (length ?L) < 5" by simp
  note t = syllable_count_beyond_classes[of ?L 5, rule_format, OF h]
  from t[of 4] have "decode ?L 5 = decode ?L (int (length ?L))" by (elim conjE)
  then have a: "decode ?L 5 = Inr 2" by (simp add: decode_def slice_to_def argmax_def)
  from t[of 4] have "1 \<le> (4::int) \<longrightarrow>
           (example_loss ?L 5 4 = Inl TargetOutOfBounds \<longleftrightarrow> int (length ?L) \<le> 4 - 1)
           \<and> (4 - 1 < int (length ?L) \<longrightarrow>
                example_loss ?L 5 4 = Inr (Finite (categorical_cross_entropy ?L (nat (4 - 1)))))"
    by (elim conjE)
  then have b: "example_loss ?L 5 4 = Inl TargetOutOfBounds" by simp
  from t[of 2] have "1 \<le> (2::int) \<longrightarrow>
           (example_loss ?L 5 2 = Inl TargetOutOfBounds \<longleftrightarrow> int (length ?L) \<le> 2 - 1)
           \<and> (2 - 1 < int (length ?L) \<longrightarrow>
                example_loss ?L 5 2 = Inr (Finite (categorical_cross_entropy ?L (nat (2 - 1)))))"
    by (elim conjE)
  then have c: "example_loss ?L 5 2 = Inr (Finite (categorical_cross_entropy ?L 1))" by simp
  from a b c show ?thesis by (intro conjI)
qed

subsection \<open>Padding and the forward pass\<close>

lemma map_err_cases:
  assumes "\<forall>x\<in>set xs. f x = (if P x then Inr (g x) else Inl e)"
  shows "map_err f xs = (if list_all P xs then Inr (map g xs) else Inl e)"
  using assms by (induction xs) auto

lemma embedding_cases:
  "embedding model idx =
     (if idx < vocab_size (shape model)
      then Inr (map (embedding_weight (weights model) idx) [0..<embed_dim (shape model)])
      else Inl EmbeddingIndex)"
  by (simp add: embedding_def)

lemma embed_rows:
  "map_err (map_err (embedding model)) x =
     (if list_all (list_all (\<lambda>idx. idx < vocab_size (shape model))) x
      then Inr (map (map (\<lambda>idx. map (embedding_weight (weights model) idx) [0..<embed_dim (shape model)])) x)
      else Inl EmbeddingIndex)"
proof (rule map_err_cases, intro ballI)
  fix row
  show "map_err (embedding model) row =
     (if list_all (\<lambda>idx. idx < vocab_size (shape model)) row
      then Inr (map (\<lambda>idx. map (embedding_weight (weights model) idx) [0..<embed_dim (shape model)]) row)
      else Inl EmbeddingIndex)"
    by (rule map_err_cases) (simp add: embedding_cases)
qed

lemma padded_in_vocab:
  assumes "0 < V" "length pads = length seqs"
  shows "list_all (list_all (\<lambda>idx. idx < V)) (map (\<lambda>(seq, p). seq @ replicate p 0) (zip seqs pads))
       = list_all (list_all (\<lambda>idx. idx < (V::nat))) seqs"
  using assms(2)
proof (induction seqs arbitrary: pads)
  case Nil then show ?case by simp
next
  case (Cons s seqs)
  then obtain p ps where "pads = p # ps" "length ps = length seqs" by (cases pads) auto
  moreover have "list_all (\<lambda>idx. idx < V) (replicate p 0)"
    using assms(1) by (simp add: list_all_iff)
  ultimately show ?case using Cons.IH[of ps] by simp
qed

lemma pack_padded:
  assumes "length pads = length seqs"
  shows "pack_padded_sequence (map (map e) (map (\<lambda>(seq, p). seq @ replicate p 0) (zip seqs pads)))
            (map length seqs)
       = (if list_ex (\<lambda>seq. seq = []) seqs then Inl PackLength else Inr (map (map e) seqs))"
proof -
  let ?x = "map (map e) (map (\<lambda>(seq, p). seq @ replicate p 0) (zip seqs pads))"
  have len: "length (map length seqs) = length ?x" using assms by simp
  have ex: "list_ex (\<lambda>(seq, l). l = 0 \<or> length seq < l) (zip ?x (map length seqs))
          = list_ex (\<lambda>seq. seq = []) seqs"
    using assms
  proof (induction seqs arbitrary: pads)
    case Nil then show ?case by simp
  next
    case (Cons s seqs)
    then obtain p ps where "pads = p # ps" "length ps = length seqs" by (cases pads) auto
    with Cons.IH[of ps] show ?case by simp
  qed
  have tk: "map (\<lambda>(seq, l). take l seq) (zip ?x (map length seqs)) = map (map e) seqs"
    using assms
  proof (induction seqs arbitrary: pads)
    case Nil then show ?case by simp
  next
    case (Cons s seqs)
    then obtain p ps where "pads = p # ps" "length ps = length seqs" by (cases pads) auto
    with Cons.IH[of ps] show ?case by simp
  qed
  show ?thesis
    unfolding pack_padded_sequence_def using len by (simp only: ex tk if_False simp_thms)
qed

lemma forward_padded:
  assumes "0 < vocab_size (shape model)" "length pads = length seqs"
  shows "forward model noise (map (\<lambda>(seq, p). seq @ replicate p 0) (zip seqs pads)) (map length seqs)
       = (if \<not> list_all (list_all (\<lambda>idx. idx < vocab_size (shape model))) seqs then Inl EmbeddingIndex
          else if list_ex (\<lambda>seq. seq = []) seqs then Inl PackLength
          else Inr (map (\<lambda>(i, seq). word_logits model (noise i) seq) (enumerate 0 seqs)))"
proof -
  let ?e = "\<lambda>idx. map (embedding_weight (weights model) idx) [0..<embed_dim (shape model)]"
  let ?x = "map (\<lambda>(seq, p). seq @ replicate p 0) (zip seqs pads)"
  have wl: "map (\<lambda>(i, seq). fc model (summary model (noise i) seq)) (enumerate n (map (map ?e) ss))
          = map (\<lambda>(i, seq). word_logits model (noise i) seq) (enumerate n ss)" for n ss
    by (induction ss arbitrary: n) (simp_all add: word_logits_def)
  show ?thesis
  proof (cases "list_all (list_all (\<lambda>idx. idx < vocab_size (shape model))) seqs")
    case False
    with padded_in_vocab[OF assms] have "\<not> list_all (list_all (\<lambda>idx. idx < vocab_size (shape model))) ?x"
      by simp
    with False show ?thesis by (simp add: forward_def embed_rows)
  next
    case True
    with padded_in_vocab[OF assms] have "list_all (list_all (\<lambda>idx. idx < vocab_size (shape model))) ?x"
      by simp
    then have em: "map_err (map_err (embedding model)) ?x = Inr (map (map ?e) ?x)"
      by (simp add: embed_rows)
    have "forward model noise ?x (map length seqs)
        = (case pack_padded_sequence (map (map ?e) ?x) (map length seqs) of
             Inl e \<Rightarrow> Inl e
           | Inr packed \<Rightarrow>
               Inr (map (\<lambda>(i, seq). fc model (summary model (noise i) seq)) (enumerate 0 packed)))"
      by (simp only: forward_def em sum.case)
    also have "\<dots> = (if list_ex (\<lambda>seq. seq = []) seqs then Inl PackLength
          else Inr (map (\<lambda>(i, seq). word_logits model (noise i) seq) (enumerate 0 seqs)))"
      unfolding pack_padded[OF assms(2)] by (simp add: wl)
    finally show ?thesis using True by simp
  qed
qed


lemma pad_sequence_zip:
  "map (\<lambda>seq. seq @ replicate (w - length seq) (0::nat)) seqs
     = map (\<lambda>(seq, p). seq @ replicate p 0) (zip seqs (map (\<lambda>seq. w - length seq) seqs))"
  by (induction seqs) simp_all

lemma collate_fn_padded:
  assumes "collate_fn items = Inr b"
  shows "\<exists>pads. length pads = length items
           \<and> b_encoded b = map (\<lambda>(seq, p). seq @ replicate p 0) (zip (map item_encoded items) pads)
           \<and> b_lengths b = map length (map item_encoded items)"
proof -
  let ?seqs = "map item_encoded items"
  let ?w = "fold max (map length ?seqs) 0"
  let ?pads = "map (\<lambda>seq. ?w - length seq) ?seqs"
  from assms have "b_encoded b = map (\<lambda>seq. seq @ replicate (?w - length seq) 0) ?seqs
                  \<and> b_lengths b = map length ?seqs"
    by (auto simp: collate_fn_def pad_sequence_def Let_def split: if_splits sum.splits)
  then have "b_encoded b = map (\<lambda>(seq, p). seq @ replicate p 0) (zip ?seqs ?pads)"
    "b_lengths b = map length ?seqs"
    by (simp_all only: pad_sequence_zip)
  moreover have "length ?pads = length items" by simp
  ultimately show ?thesis by blast
qed

lemma forward_collated:
  assumes "0 < vocab_size (shape model)" "collate_fn items = Inr b"
    and "list_all (\<lambda>it. item_encoded it \<noteq> []
            \<and> list_all (\<lambda>idx. idx < vocab_size (shape model)) (item_encoded it)) items"
  shows "forward model noise (b_encoded b) (b_lengths b)
           = Inr (map (\<lambda>(i, it). word_logits model (noise i) (item_encoded it)) (enumerate 0 items))"
proof -
  from collate_fn_padded[OF assms(2)] obtain pads where p: "length pads = length (map item_encoded items)"
    "b_encoded b = map (\<lambda>(seq, p). seq @ replicate p 0) (zip (map item_encoded items) pads)"
    "b_lengths b = map length (map item_encoded items)" by auto
  from assms(3) have a: "list_all (list_all (\<lambda>idx. idx < vocab_size (shape model))) (map item_encoded items)"
    and e: "\<not> list_ex (\<lambda>seq. seq = []) (map item_encoded items)"
    by (auto simp: list_all_iff list_ex_iff)
  have en: "map (\<lambda>(i, seq). word_logits model (noise i) seq) (enumerate n (map item_encoded its))
          = map (\<lambda>(i, it). word_logits model (noise i) (item_encoded it)) (enumerate n its)" for n its
    by (induction its arbitrary: n) simp_all
  show ?thesis
    unfolding p(2,3) forward_padded[OF assms(1) p(1)] using a e by (simp only: en if_False if_True simp_thms)
qed

text \<open>
  Claim C4. For every model (its embedding table has the padding row, as every
  constructed model has) and every batch, two padded batches of the same encoded words
  that differ only in how many padding entries follow each word, passed with the true
  lengths, give the same result of the forward pass, row by row and with the same
  dropout factors. When every word has at least one character and every index lies in
  the embedding table, the row of scores of a word is the scores of that word alone:
  no padded position and no other row of the batch enters it. This holds for the batch
  that \<^verbatim>\<open>collate_fn\<close> assembles.
\<close>

theorem padding_never_changes_logits:
  assumes "0 < vocab_size (shape model)" "length pads = length seqs" "length pads' = length seqs"
  shows "forward model noise (map (\<lambda>(seq, p). seq @ replicate p 0) (zip seqs pads)) (map length seqs)
       = forward model noise (map (\<lambda>(seq, p). seq @ replicate p 0) (zip seqs pads')) (map length seqs)
    \<and> (list_all (\<lambda>seq. seq \<noteq> [] \<and> list_all (\<lambda>idx. idx < vocab_size (shape model)) seq) seqs \<longrightarrow>
         forward model noise (map (\<lambda>(seq, p). seq @ replicate p 0) (zip seqs pads)) (map length seqs)
           = Inr (map (\<lambda>(i, seq). word_logits model (noise i) seq) (enumerate 0 seqs)))
    \<and> (\<forall>b. collate_fn items = Inr b
            \<and> list_all (\<lambda>it. item_encoded it \<noteq> []
                  \<and> list_all (\<lambda>idx. idx < vocab_size (shape model)) (item_encoded it)) items \<longrightarrow>
         forward model noise (b_encoded b) (b_lengths b)
           = Inr (map (\<lambda>(i, it). word_logits model (noise i) (item_encoded it)) (enumerate 0 items)))"
proof (intro conjI impI allI)
  show "forward model noise (map (\<lambda>(seq, p). seq @ replicate p 0) (zip seqs pads)) (map length seqs)
       = forward model noise (map (\<lambda>(seq, p). seq @ replicate p 0) (zip seqs pads')) (map length seqs)"
    by (simp only: forward_padded[OF assms(1,2)] forward_padded[OF assms(1,3)])
next
  assume h: "list_all (\<lambda>seq. seq \<noteq> [] \<and> list_all (\<lambda>idx. idx < vocab_size (shape model)) seq) seqs"
  then have a: "list_all (list_all (\<lambda>idx. idx < vocab_size (shape model))) seqs"
    and e: "\<not> list_ex (\<lambda>seq. seq = []) seqs"
    by (simp_all add: list_all_iff list_ex_iff)
  show "forward model noise (map (\<lambda>(seq, p). seq @ replicate p 0) (zip seqs pads)) (map length seqs)
           = Inr (map (\<lambda>(i, seq). word_logits model (noise i) seq) (enumerate 0 seqs))"
    unfolding forward_padded[OF assms(1,2)] using a e by (simp only: if_False if_True simp_thms)
next
  fix b
  assume "collate_fn items = Inr b
            \<and> list_all (\<lambda>it. item_encoded it \<noteq> []
                  \<and> list_all (\<lambda>idx. idx < vocab_size (shape model)) (item_encoded it)) items"
  then show "forward model noise (b_encoded b) (b_lengths b)
           = Inr (map (\<lambda>(i, it). word_logits model (noise i) (item_encoded it)) (enumerate 0 items))"
    using forward_collated[OF assms(1)] by blast
qed

theorem padding_never_changes_logits_witness:
  "forward example_model (\<lambda>i j. 1) [[1, 2, 0], [2, 0, 0]] [2, 1]
     = forward example_model (\<lambda>i j. 1) [[1, 2], [2, 0]] [2, 1]
   \<and> forward example_model (\<lambda>i j. 1) [[1, 2, 0], [2, 0, 0]] [2, 1]
     = Inr [word_logits example_model (\<lambda>j. 1) [1, 2], word_logits example_model (\<lambda>j. 1) [2]]
   \<and> forward example_model (\<lambda>i j. 1) [[1, 2], [2, 0]] [2, 1]
     = Inr [word_logits example_model (\<lambda>j. 1) [1, 2], word_logits example_model (\<lambda>j. 1) [2]]"
proof -
  let ?items = "[\<lparr>item_id = 1, item_word = [98, 99], item_encoded = [1, 2],
                   item_num_syllables = 1, item_stress = None\<rparr>,
                 \<lparr>item_id = 2, item_word = [99], item_encoded = [2],
                   item_num_syllables = 1, item_stress = None\<rparr>]"
  let ?b = "\<lparr>b_id = [1, 2], b_encoded = [[1, 2], [2, 0]], b_lengths = [2, 1],
             b_num_syllables = [1, 1], b_stress = None\<rparr>"
  have h1: "0 < vocab_size (shape example_model)" by (simp add: example_model_def)
  have h2: "length [1, 2::nat] = length [[1, 2], [2::nat]]" by simp
  have h3: "length [0, 1::nat] = length [[1, 2], [2::nat]]" by simp
  note t = padding_never_changes_logits[OF h1 h2 h3, where noise = "\<lambda>i j. 1" and items = ?items]
  from t have "forward example_model (\<lambda>i j. 1)
                 (map (\<lambda>(seq, p). seq @ replicate p 0) (zip [[1, 2], [2]] [1, 2])) (map length [[1, 2], [2::nat]])
             = forward example_model (\<lambda>i j. 1)
                 (map (\<lambda>(seq, p). seq @ replicate p 0) (zip [[1, 2], [2]] [0, 1])) (map length [[1, 2], [2::nat]])"
    by (elim conjE)
  then have a: "forward example_model (\<lambda>i j. 1) [[1, 2, 0], [2, 0, 0]] [2, 1]
     = forward example_model (\<lambda>i j. 1) [[1, 2], [2, 0]] [2, 1]"
    by (simp add: numeral_2_eq_2)
  from t have "list_all (\<lambda>seq. seq \<noteq> [] \<and> list_all (\<lambda>idx. idx < vocab_size (shape example_model)) seq)
                 [[1, 2], [2]] \<longrightarrow>
         forward example_model (\<lambda>i j. 1)
               (map (\<lambda>(seq, p). seq @ replicate p 0) (zip [[1, 2], [2]] [1, 2])) (map length [[1, 2], [2::nat]])
           = Inr (map (\<lambda>(i, seq). word_logits example_model ((\<lambda>i j. 1) i) seq) (enumerate 0 [[1, 2], [2]]))"
    by (elim conjE)
  then have b: "forward example_model (\<lambda>i j. 1) [[1, 2, 0], [2, 0, 0]] [2, 1]
     = Inr [word_logits example_model (\<lambda>j. 1) [1, 2], word_logits example_model (\<lambda>j. 1) [2]]"
    by (simp add: numeral_2_eq_2 example_model_def)
  have cl: "collate_fn ?items = Inr ?b"
    by (simp add: collate_fn_def pad_sequence_def Let_def)
  from t have "\<forall>b. collate_fn ?items = Inr b
            \<and> list_all (\<lambda>it. item_encoded it \<noteq> []
                  \<and> list_all (\<lambda>idx. idx < vocab_size (shape example_model)) (item_encoded it)) ?items \<longrightarrow>
         forward example_model (\<lambda>i j. 1) (b_encoded b) (b_lengths b)
           = Inr (map (\<lambda>(i, it). word_logits example_model ((\<lambda>i j. 1) i) (item_encoded it))
                   (enumerate 0 ?items))"
    by (elim conjE)
  from this[rule_format, of ?b] cl
  have c: "forward example_model (\<lambda>i j. 1) [[1, 2], [2, 0]] [2, 1]
     = Inr [word_logits example_model (\<lambda>j. 1) [1, 2], word_logits example_model (\<lambda>j. 1) [2]]"
    by (simp add: example_model_def)
  from a b c show ?thesis by (intro conjI)
qed

subsection \<open>The setup of the train mode\<close>

lemma map_err_all:
  assumes "\<forall>x\<in>set xs. f x = Inr (g x)"
  shows "map_err f xs = Inr (map g xs)"
  using assms by (induction xs) auto

lemma getitem_init:
  assumes "i < length csv"
  shows "getitem (StressDataset_init csv c m) i =
           Inr \<lparr>item_id = row_id (csv ! i), item_word = row_word (csv ! i),
                item_encoded = encode_word (row_word (csv ! i))
                                 (case c of None \<Rightarrow> fst (build_vocab (map row_word csv)) | Some d \<Rightarrow> d),
                item_num_syllables = row_num_syllables (csv ! i),
                item_stress = (if m = TrainMode then Some (row_stress (csv ! i)) else None)\<rparr>"
  using assms by (simp add: getitem_def StressDataset_init_def Let_def list_get_def)

lemma DataLoader_init:
  assumes "0 < n" "sh \<longrightarrow> csv \<noteq> []"
  shows "\<exists>items. DataLoader (StressDataset_init csv c m) n sh
           = Inr \<lparr>l_items = items, l_batch_size = n, l_shuffle = sh\<rparr>"
proof -
  let ?ds = "StressDataset_init csv c m"
  let ?g = "\<lambda>i. \<lparr>item_id = row_id (csv ! i), item_word = row_word (csv ! i),
                item_encoded = encode_word (row_word (csv ! i))
                                 (case c of None \<Rightarrow> fst (build_vocab (map row_word csv)) | Some d \<Rightarrow> d),
                item_num_syllables = row_num_syllables (csv ! i),
                item_stress = (if m = TrainMode then Some (row_stress (csv ! i)) else None)\<rparr>"
  have len: "length (ds_words ?ds) = length csv" by (simp add: StressDataset_init_def Let_def)
  have "map_err (getitem ?ds) [0..<length csv] = Inr (map ?g [0..<length csv])"
    by (rule map_err_all) (simp add: getitem_init)
  with assms show ?thesis by (simp add: DataLoader_def len)
qed

lemma py_max_Max: "xs \<noteq> [] \<Longrightarrow> py_max xs = Inr (Max (set xs))"
proof (cases xs)
  case Nil
  assume "xs \<noteq> []" with Nil show ?thesis by simp
next
  case (Cons x rest)
  have "fold max rest x = Max (set (x # rest))" by (simp only: Max.set_eq_fold)
  with Cons show ?thesis by (simp add: py_max_def)
qed

lemma vocab_length: "length (fst (build_vocab words)) = Suc (length (corpus_chars words))"
  by (simp add: char2idx_eq)

lemma train_setup_Test:
  assumes "train_csv \<noteq> []" "0 < batch_size a" "0 \<le> Max (set (map row_num_syllables train_csv))"
    and "0 < arg_hidden_size a" "0 < arg_embed_dim a"
  shows "\<exists>model. constructed_model (train_setup Test env a train_csv) = Inr model
           \<and> int (num_classes (shape model)) = Max (set (map row_num_syllables train_csv))
           \<and> bidirectional (shape model)"
proof -
  let ?ds = "StressDataset_init train_csv None TrainMode"
  have ks: "ds_num_syllables ?ds = map row_num_syllables train_csv"
    by (simp add: StressDataset_init_def Let_def)
  have c2i: "ds_char2idx ?ds = fst (build_vocab (map row_word train_csv))"
    by (simp add: StressDataset_init_def Let_def)
  from assms(1) have mx: "py_max (map row_num_syllables train_csv)
                            = Inr (Max (set (map row_num_syllables train_csv)))"
    by (intro py_max_Max) simp
  from assms(1) have ne: "True \<longrightarrow> train_csv \<noteq> []" "False \<longrightarrow> train_csv \<noteq> []" by simp_all
  from DataLoader_init[OF assms(2) ne(1)] obtain it1 where
    l1: "DataLoader ?ds (batch_size a) True = Inr \<lparr>l_items = it1, l_batch_size = batch_size a, l_shuffle = True\<rparr>"
    by blast
  from DataLoader_init[OF assms(2) ne(2)] obtain it2 where
    l2: "DataLoader ?ds (batch_size a) False = Inr \<lparr>l_items = it2, l_batch_size = batch_size a, l_shuffle = False\<rparr>"
    by blast
  show ?thesis
    using assms(3,4,5)
    by (simp add: train_setup_def constructed_model_def Let_def ks c2i mx l1 l2
        StressModel_init_def vocab_length)
qed

lemma train_setup_Copy1:
  assumes "0 < batch_size a" "0 < arg_hidden_size a" "0 < arg_embed_dim a" "train_csv \<noteq> []"
  shows "\<exists>model. constructed_model (train_setup Test_Copy1 env a train_csv) = Inr model
           \<and> num_classes (shape model) = 6 \<and> \<not> bidirectional (shape model)"
proof -
  let ?ds = "StressDataset_init train_csv None TrainMode"
  have c2i: "ds_char2idx ?ds = fst (build_vocab (map row_word train_csv))"
    by (simp add: StressDataset_init_def Let_def)
  from assms(4) have ne: "True \<longrightarrow> train_csv \<noteq> []" "False \<longrightarrow> train_csv \<noteq> []" by simp_all
  from DataLoader_init[OF assms(1) ne(1)] obtain it1 where
    l1: "DataLoader ?ds (batch_size a) True = Inr \<lparr>l_items = it1, l_batch_size = batch_size a, l_shuffle = True\<rparr>"
    by blast
  from DataLoader_init[OF assms(1) ne(2)] obtain it2 where
    l2: "DataLoader ?ds (batch_size a) False = Inr \<lparr>l_items = it2, l_batch_size = batch_size a, l_shuffle = False\<rparr>"
    by blast
  show ?thesis
    using assms(2,3)
    by (simp add: train_setup_def constructed_model_def Let_def c2i l1 l2
        StressModel_init_def vocab_length)
qed


subsection \<open>Training keeps the shape of the model\<close>

lemma train_loop_shape:
  "train_loop env epoch bi batches model ost total_loss = Inr (model', ost', total_loss')
     \<Longrightarrow> shape model' = shape model"
proof (induction batches arbitrary: bi model ost total_loss)
  case Nil
  then show ?case by simp
next
  case (Cons items rest)
  from Cons.prems obtain batch logits stresses batch_loss where
    r: "train_loop env epoch (Suc bi) rest
          (model\<lparr>weights := snd (optimizer_step env ost model batch (dropout_noise env epoch bi))\<rparr>)
          (fst (optimizer_step env ost model batch (dropout_noise env epoch bi)))
          (loss_add total_loss batch_loss) = Inr (model', ost', total_loss')"
    by (auto simp: Let_def split: sum.splits option.splits)
  from Cons.IH[OF r] show ?case by simp
qed

lemma train_model_shape:
  assumes "train_model env epoch model dataloader ost = Inr (model', ost', train_loss)"
  shows "shape model' = shape model"
proof -
  from assms obtain total_loss where
    "train_loop env epoch 0 (iterate dataloader (shuffle_order env epoch))
       (model\<lparr>training := True\<rparr>) ost (Finite 0) = Inr (model', ost', total_loss)"
    by (auto simp: train_model_def Let_def split: sum.splits if_splits)
  from train_loop_shape[OF this] show ?thesis by simp
qed

lemma epoch_loop_shape:
  "epoch_loop env train_loader val_loader epoch n model ost = Inr model'
     \<Longrightarrow> shape model' = shape model"
proof (induction n arbitrary: epoch model ost)
  case 0
  then show ?case by simp
next
  case (Suc n)
  from Suc.prems obtain m1 o1 l1 where
    t: "train_model env epoch model train_loader ost = Inr (m1, o1, l1)"
    and r: "epoch_loop env train_loader val_loader (Suc epoch) n m1 o1 = Inr model'"
    by (auto split: sum.splits)
  from Suc.IH[OF r] train_model_shape[OF t] show ?case by simp
qed

lemma main_train_parts:
  assumes "main_train nb env a train_csv = Inr ck"
  shows "\<exists>ds train_loader val_loader model model'.
           train_setup nb env a train_csv = Inr (ds, train_loader, val_loader, model)
           \<and> epoch_loop env train_loader val_loader 0 (epochs a) model (optimizer_init env) = Inr model'
           \<and> ck = \<lparr>ck_model_state_dict = state_dict model', ck_char2idx = ds_char2idx ds\<rparr>"
  using assms by (auto simp: main_train_def split: sum.splits)

lemma train_setup_parts:
  assumes "train_setup nb env a train_csv = Inr (ds, train_loader, val_loader, model)"
  shows "ds = StressDataset_init train_csv None TrainMode
       \<and> 0 < batch_size a \<and> 0 < arg_hidden_size a
       \<and> shape model = \<lparr>bidirectional = (nb = Test),
                          vocab_size = length (fst (build_vocab (map row_word train_csv))),
                          embed_dim = arg_embed_dim a, hidden_size = arg_hidden_size a,
                          num_classes = num_classes (shape model)\<rparr>
       \<and> (nb = Test \<longrightarrow> train_csv \<noteq> [] \<longrightarrow>
             0 \<le> Max (set (map row_num_syllables train_csv))
             \<and> num_classes (shape model) = nat (Max (set (map row_num_syllables train_csv))))
       \<and> (nb = Test_Copy1 \<longrightarrow> num_classes (shape model) = 6)"
proof -
  let ?ds = "StressDataset_init train_csv None TrainMode"
  have ks: "ds_num_syllables ?ds = map row_num_syllables train_csv"
    by (simp add: StressDataset_init_def Let_def)
  have c2i: "ds_char2idx ?ds = fst (build_vocab (map row_word train_csv))"
    by (simp add: StressDataset_init_def Let_def)
  have mx: "py_max (map row_num_syllables train_csv)
                            = Inr (Max (set (map row_num_syllables train_csv)))"
    if "train_csv \<noteq> []"
    using that by (intro py_max_Max) simp
  from assms have ds: "ds = ?ds"
    by (auto simp: train_setup_def Let_def split: sum.splits)
  from assms have bs: "0 < batch_size a"
    by (auto simp: train_setup_def Let_def DataLoader_def split: sum.splits if_splits)
  from assms obtain k where
    k0: "(if nb = Test then py_max (ds_num_syllables ?ds) else Inr 6) = Inr k"
    and m: "StressModel_init (nb = Test) (init_weights env)
               (length (fst (build_vocab (map row_word train_csv))))
               (arg_embed_dim a) (arg_hidden_size a) k = Inr model"
    by (auto simp: train_setup_def Let_def c2i split: sum.splits)
  from k0 have k: "(if nb = Test then py_max (map row_num_syllables train_csv) else Inr 6) = Inr k"
    unfolding ks .
  from m have k0: "0 \<le> k" and hs: "0 < arg_hidden_size a" and sh: "shape model =
      \<lparr>bidirectional = (nb = Test), vocab_size = length (fst (build_vocab (map row_word train_csv))),
       embed_dim = arg_embed_dim a, hidden_size = arg_hidden_size a, num_classes = nat k\<rparr>"
    by (auto simp: StressModel_init_def split: if_splits)
  have t: "0 \<le> Max (set (map row_num_syllables train_csv))
             \<and> num_classes (shape model) = nat (Max (set (map row_num_syllables train_csv)))"
    if "nb = Test" "train_csv \<noteq> []"
    using k k0 sh that mx[OF that(2)] by simp
  have c: "num_classes (shape model) = 6" if "nb = Test_Copy1"
    using k sh that by simp
  from ds bs hs sh t c show ?thesis by simp
qed

lemma main_train_saved:
  assumes "main_train nb env a train_csv = Inr ck"
  shows "constructed_num_classes nb env a train_csv = Inr (saved_num_classes ck)
       \<and> ck_char2idx ck = fst (build_vocab (map row_word train_csv))
       \<and> 0 < batch_size a \<and> 0 < arg_hidden_size a
       \<and> fst (ck_model_state_dict ck) =
            \<lparr>bidirectional = (nb = Test),
             vocab_size = length (fst (build_vocab (map row_word train_csv))),
             embed_dim = arg_embed_dim a, hidden_size = arg_hidden_size a,
             num_classes = saved_num_classes ck\<rparr>
       \<and> (nb = Test \<longrightarrow> train_csv \<noteq> [] \<longrightarrow>
             0 \<le> Max (set (map row_num_syllables train_csv))
             \<and> saved_num_classes ck = nat (Max (set (map row_num_syllables train_csv))))
       \<and> (nb = Test_Copy1 \<longrightarrow> saved_num_classes ck = 6)"
proof -
  from main_train_parts[OF assms] obtain ds train_loader val_loader model model' where
    s: "train_setup nb env a train_csv = Inr (ds, train_loader, val_loader, model)"
    and e: "epoch_loop env train_loader val_loader 0 (epochs a) model (optimizer_init env) = Inr model'"
    and ck: "ck = \<lparr>ck_model_state_dict = state_dict model', ck_char2idx = ds_char2idx ds\<rparr>"
    by blast
  note p = train_setup_parts[OF s]
  from epoch_loop_shape[OF e] have sh: "shape model' = shape model" .
  have sv: "saved_num_classes ck = num_classes (shape model)"
    by (simp add: saved_num_classes_def ck state_dict_def sh)
  have c1: "constructed_num_classes nb env a train_csv = Inr (saved_num_classes ck)"
    by (simp add: constructed_num_classes_def constructed_model_def s sv)
  have c2: "ck_char2idx ck = fst (build_vocab (map row_word train_csv))"
    using p by (simp add: ck StressDataset_init_def Let_def)
  have c3: "fst (ck_model_state_dict ck) =
            \<lparr>bidirectional = (nb = Test),
             vocab_size = length (fst (build_vocab (map row_word train_csv))),
             embed_dim = arg_embed_dim a, hidden_size = arg_hidden_size a,
             num_classes = saved_num_classes ck\<rparr>"
    using p unfolding sv by (simp add: ck state_dict_def sh)
  from c1 c2 c3 p show ?thesis unfolding sv by blast
qed

lemma train_setup_empty: "\<exists>e. train_setup nb env a [] = Inl e"
  by (cases nb) (simp_all add: train_setup_def Let_def StressDataset_init_def py_max_def
      DataLoader_def)

lemma train_setup_ok:
  assumes "train_setup nb env a train_csv = Inr (ds, train_loader, val_loader, model)"
  shows "train_csv \<noteq> [] \<and> 0 < arg_embed_dim a"
proof
  show "train_csv \<noteq> []"
  proof
    assume "train_csv = []"
    with train_setup_empty[of nb env a] assms show False by simp
  qed
  from assms obtain k n where
    "StressModel_init (nb = Test) (init_weights env) n (arg_embed_dim a) (arg_hidden_size a) k
       = Inr model"
    by (auto simp: train_setup_def Let_def split: sum.splits)
  then show "0 < arg_embed_dim a"
    by (auto simp: StressModel_init_def split: if_splits)
qed

lemma main_train_ok:
  assumes "main_train nb env a train_csv = Inr ck"
  shows "train_csv \<noteq> [] \<and> 0 < arg_embed_dim a"
proof -
  from main_train_parts[OF assms] obtain ds train_loader val_loader model where
    "train_setup nb env a train_csv = Inr (ds, train_loader, val_loader, model)"
    by blast
  then show ?thesis by (rule train_setup_ok)
qed

lemma train_setup_refused:
  assumes "train_csv = [] \<or> batch_size a = 0 \<or> arg_embed_dim a = 0 \<or> arg_hidden_size a = 0"
  shows "\<exists>e. train_setup nb env a train_csv = Inl e"
proof (cases "train_setup nb env a train_csv")
  case (Inl e)
  then show ?thesis by blast
next
  case (Inr r)
  then obtain ds train_loader val_loader model where
    r: "train_setup nb env a train_csv = Inr (ds, train_loader, val_loader, model)"
    by (cases r) auto
  from train_setup_parts[OF r] have "0 < batch_size a" "0 < arg_hidden_size a" by simp_all
  moreover from train_setup_ok[OF r] have "train_csv \<noteq> []" "0 < arg_embed_dim a" by simp_all
  ultimately show ?thesis using assms by simp
qed

subsection \<open>The example run\<close>

lemma fc_zero_weight:
  "fc_weight (weights m) = (\<lambda>r c. 0) \<Longrightarrow> fc m h = map (fc_bias (weights m)) [0..<num_classes (shape m)]"
  by (simp add: fc_def)

lemma example_vocab:
  "fst (build_vocab [[99, 97, 116], [97, 112, 112, 108, 101], [98, 97, 110, 97, 110, 97]]) =
   [([97], 1), ([98], 2), ([99], 3), ([101], 4), ([108], 5), ([110], 6), ([112], 7), ([116], 8), (PAD, 0)]"
  by (simp add: char2idx_eq corpus_chars_sort)

lemmas example_run = example_vocab train_setup_def Let_def StressDataset_init_def
  example_train_csv_def example_test_csv_def example_args_def example_env_def py_max_def
  DataLoader_def getitem_def list_get_def upt_rec encode_word_def dict_get_def PAD_def
  StressModel_init_def main_train_def train_model_def evaluate_model_def iterate_def chunks.simps
  collate_fn_def pad_sequence_def forward_def embedding_def pack_padded_sequence_def
  masked_cross_entropy_loss_def example_loss_def cross_entropy_def slice_to_def
  evaluate_example_def argmax_def state_dict_def example_values_def fc_zero_weight
  predict_def decode_def

lemma example_train_Test: "\<exists>ck. main_train Test example_env example_args example_train_csv = Inr ck"
  by (simp add: example_run)

lemma example_train_Copy1: "\<exists>ck. main_train Test_Copy1 example_env example_args example_train_csv = Inr ck"
  by (simp add: example_run)

lemma example_unsaved_Test:
  "train_and_predict_unsaved Test example_env example_args example_train_csv example_test_csv
     = Inr ([1, 2], [1, 2])"
  by (simp add: example_run train_and_predict_unsaved_def)

lemma example_unsaved_Copy1:
  "train_and_predict_unsaved Test_Copy1 example_env example_args example_train_csv example_test_csv
     = Inr ([1, 2], [1, 2])"
  by (simp add: example_run train_and_predict_unsaved_def)

lemma example_max_test: "Max (set (map row_num_syllables example_test_csv)) = 2"
  by (simp add: example_test_csv_def)

subsection \<open>The class count of the train mode\<close>

text \<open>
  Claim C8, as the code has it. In the train mode of \<^verbatim>\<open>Test\<close>, for every training
  data set with at least one row (and a batch size, an embedding width, a hidden size
  and a largest syllable count the libraries accept), the constructed model has as many
  classes as the largest syllable count of the data, so no row of the data has more
  syllables than the model has classes. In the train mode of \<^verbatim>\<open>Test-Copy1\<close>, for
  every training data set with at least one row (and a batch size, an embedding width
  and a hidden size the libraries accept), the constructed model has the 6 classes of
  the constructor's default, whatever the syllable counts. In both notebooks no model is
  constructed from a training data set without rows, or with a batch size, an embedding
  width or a hidden size of zero: the train mode ends in an error before. In both, the
  model of a saved checkpoint has the number of classes of the constructed model.
\<close>

theorem train_constructs_class_count:
  "(train_csv \<noteq> [] \<and> 0 < batch_size a \<and> 0 < arg_embed_dim a \<and> 0 < arg_hidden_size a
      \<and> 0 \<le> Max (set (map row_num_syllables train_csv)) \<longrightarrow>
      constructed_num_classes Test env a train_csv
        = Inr (nat (Max (set (map row_num_syllables train_csv))))
      \<and> (\<forall>r\<in>set train_csv.
            row_num_syllables r \<le> int (nat (Max (set (map row_num_syllables train_csv))))))
   \<and> (train_csv \<noteq> [] \<and> 0 < batch_size a \<and> 0 < arg_embed_dim a \<and> 0 < arg_hidden_size a \<longrightarrow>
         constructed_num_classes Test_Copy1 env a train_csv = Inr 6)
   \<and> (train_csv = [] \<or> batch_size a = 0 \<or> arg_embed_dim a = 0 \<or> arg_hidden_size a = 0 \<longrightarrow>
         (\<exists>e. constructed_num_classes nb env a train_csv = Inl e))
   \<and> (\<forall>ck. main_train nb env a train_csv = Inr ck \<longrightarrow>
          constructed_num_classes nb env a train_csv = Inr (saved_num_classes ck))"
proof (intro conjI impI allI ballI)
  assume h: "train_csv \<noteq> [] \<and> 0 < batch_size a \<and> 0 < arg_embed_dim a \<and> 0 < arg_hidden_size a
      \<and> 0 \<le> Max (set (map row_num_syllables train_csv))"
  then have "\<exists>model. constructed_model (train_setup Test env a train_csv) = Inr model
           \<and> int (num_classes (shape model)) = Max (set (map row_num_syllables train_csv))
           \<and> bidirectional (shape model)"
    by (intro train_setup_Test) simp_all
  then obtain model where m: "constructed_model (train_setup Test env a train_csv) = Inr model"
    "int (num_classes (shape model)) = Max (set (map row_num_syllables train_csv))" by blast
  from m(2) have "num_classes (shape model) = nat (Max (set (map row_num_syllables train_csv)))"
    by linarith
  with m(1) show "constructed_num_classes Test env a train_csv
        = Inr (nat (Max (set (map row_num_syllables train_csv))))"
    by (simp add: constructed_num_classes_def)
next
  fix r
  assume h: "train_csv \<noteq> [] \<and> 0 < batch_size a \<and> 0 < arg_embed_dim a \<and> 0 < arg_hidden_size a
      \<and> 0 \<le> Max (set (map row_num_syllables train_csv))"
    and r: "r \<in> set train_csv"
  from r have "row_num_syllables r \<le> Max (set (map row_num_syllables train_csv))"
    by (intro Max_ge) simp_all
  with h show "row_num_syllables r \<le> int (nat (Max (set (map row_num_syllables train_csv))))"
    by simp
next
  assume "train_csv \<noteq> [] \<and> 0 < batch_size a \<and> 0 < arg_embed_dim a \<and> 0 < arg_hidden_size a"
  then have "0 < batch_size a" "0 < arg_hidden_size a" "0 < arg_embed_dim a" "train_csv \<noteq> []"
    by simp_all
  from train_setup_Copy1[OF this] obtain model where
    "constructed_model (train_setup Test_Copy1 env a train_csv) = Inr model"
    "num_classes (shape model) = 6" by blast
  then show "constructed_num_classes Test_Copy1 env a train_csv = Inr 6"
    by (simp add: constructed_num_classes_def)
next
  assume "train_csv = [] \<or> batch_size a = 0 \<or> arg_embed_dim a = 0 \<or> arg_hidden_size a = 0"
  from train_setup_refused[OF this] obtain e where "train_setup nb env a train_csv = Inl e"
    by blast
  then have "constructed_num_classes nb env a train_csv = Inl e"
    by (simp add: constructed_num_classes_def constructed_model_def)
  then show "\<exists>e. constructed_num_classes nb env a train_csv = Inl e" by blast
next
  fix ck assume "main_train nb env a train_csv = Inr ck"
  from main_train_saved[OF this]
  show "constructed_num_classes nb env a train_csv = Inr (saved_num_classes ck)" by blast
qed

lemma example_max_train: "Max (set (map row_num_syllables example_train_csv)) = 3"
  by (simp add: example_train_csv_def)

theorem train_constructs_class_count_witness:
  "constructed_num_classes Test example_env example_args example_train_csv = Inr 3
   \<and> row_num_syllables (example_train_csv ! 1) \<le> 3
   \<and> constructed_num_classes Test_Copy1 example_env example_args example_train_csv = Inr 6
   \<and> (\<exists>e. constructed_num_classes Test_Copy1 example_env example_args [] = Inl e)
   \<and> (\<exists>e. constructed_num_classes Test example_env (example_args\<lparr>arg_embed_dim := 0\<rparr>)
             example_train_csv = Inl e)
   \<and> (\<exists>ck. main_train Test example_env example_args example_train_csv = Inr ck
          \<and> saved_num_classes ck = 3)"
proof -
  have h: "example_train_csv \<noteq> [] \<and> 0 < batch_size example_args
             \<and> 0 < arg_embed_dim example_args \<and> 0 < arg_hidden_size example_args
             \<and> 0 \<le> Max (set (map row_num_syllables example_train_csv))"
    by (simp add: example_max_train) (simp add: example_train_csv_def example_args_def)
  note t = train_constructs_class_count[of example_train_csv example_args example_env Test]
  from t h have a: "constructed_num_classes Test example_env example_args example_train_csv
        = Inr (nat (Max (set (map row_num_syllables example_train_csv))))"
    and b: "\<forall>r\<in>set example_train_csv.
            row_num_syllables r \<le> int (nat (Max (set (map row_num_syllables example_train_csv))))"
    by blast+
  have "example_train_csv ! 1 \<in> set example_train_csv" by (simp add: example_train_csv_def)
  with b have b': "row_num_syllables (example_train_csv ! 1) \<le> 3"
    unfolding example_max_train by fastforce
  have "example_train_csv \<noteq> [] \<and> 0 < batch_size example_args
          \<and> 0 < arg_embed_dim example_args \<and> 0 < arg_hidden_size example_args"
    by (simp add: example_train_csv_def example_args_def)
  with t have c: "constructed_num_classes Test_Copy1 example_env example_args example_train_csv = Inr 6"
    by blast
  have e1: "\<exists>e. constructed_num_classes Test_Copy1 example_env example_args [] = Inl e"
    using train_constructs_class_count[of "[]" example_args example_env Test_Copy1,
        THEN conjunct2, THEN conjunct2, THEN conjunct1]
    by simp
  have e2: "\<exists>e. constructed_num_classes Test example_env (example_args\<lparr>arg_embed_dim := 0\<rparr>)
             example_train_csv = Inl e"
    using train_constructs_class_count[of example_train_csv "example_args\<lparr>arg_embed_dim := 0\<rparr>"
        example_env Test, THEN conjunct2, THEN conjunct2, THEN conjunct1]
    by simp
  from example_train_Test obtain ck where
    mt: "main_train Test example_env example_args example_train_csv = Inr ck" by blast
  from t mt have "constructed_num_classes Test example_env example_args example_train_csv
                    = Inr (saved_num_classes ck)"
    by blast
  with a have "saved_num_classes ck = 3" unfolding example_max_train by simp
  with mt have d: "\<exists>ck. main_train Test example_env example_args example_train_csv = Inr ck
          \<and> saved_num_classes ck = 3"
    by blast
  from a b' c e1 e2 d show ?thesis unfolding example_max_train by simp
qed

text \<open>
  Claim C8 as stated fails for the unidirectional notebook, in both of its halves. On
  the three training words with up to three syllables its model has 6 classes, not 3:
  the class count is not the largest syllable count. On a training word of seven
  syllables its model has 6 classes as well: the class count is below a syllable count
  of the data.
\<close>

theorem fixed_class_count_in_copy:
  "constructed_num_classes Test_Copy1 example_env example_args example_train_csv = Inr 6
   \<and> Max (set (map row_num_syllables example_train_csv)) = 3
   \<and> constructed_num_classes Test_Copy1 example_env example_args example_long_csv = Inr 6
   \<and> Max (set (map row_num_syllables example_long_csv)) = 7
   \<and> (\<exists>r\<in>set example_long_csv. 6 < row_num_syllables r)"
proof -
  have args: "0 < batch_size example_args" "0 < arg_hidden_size example_args"
    "0 < arg_embed_dim example_args"
    by (simp_all add: example_args_def)
  have ne: "example_train_csv \<noteq> []" by (simp add: example_train_csv_def)
  from train_setup_Copy1[OF args ne, of example_env] obtain model where
    "constructed_model (train_setup Test_Copy1 example_env example_args example_train_csv) = Inr model"
    "num_classes (shape model) = 6" by blast
  then have a: "constructed_num_classes Test_Copy1 example_env example_args example_train_csv = Inr 6"
    by (simp add: constructed_num_classes_def)
  have ne': "example_long_csv \<noteq> []" by (simp add: example_long_csv_def)
  from train_setup_Copy1[OF args ne', of example_env] obtain model' where
    "constructed_model (train_setup Test_Copy1 example_env example_args example_long_csv) = Inr model'"
    "num_classes (shape model') = 6" by blast
  then have b: "constructed_num_classes Test_Copy1 example_env example_args example_long_csv = Inr 6"
    by (simp add: constructed_num_classes_def)
  have c: "Max (set (map row_num_syllables example_long_csv)) = 7"
    by (simp add: example_long_csv_def)
  have d: "\<exists>r\<in>set example_long_csv. 6 < row_num_syllables r"
    by (simp add: example_long_csv_def)
  from a example_max_train b c d show ?thesis by (intro conjI)
qed


subsection \<open>The model of the predict mode\<close>

lemma DataLoader_init_items:
  assumes "0 < n"
  shows "\<exists>dl. DataLoader (StressDataset_init csv c m) n False = Inr dl"
  using DataLoader_init[where sh = False and n = n and csv = csv and c = c and m = m] assms
  by auto

lemma predict_setup_Test:
  assumes "test_csv \<noteq> []" "0 < batch_size a'" "0 < arg_hidden_size a'"
    and "0 < length (ck_char2idx ck)"
  shows "loaded_model (predict_setup Test env' a' ck test_csv) =
     (if arg_embed_dim a' = 0 then Inl RecurrentSize
      else if Max (set (map row_num_syllables test_csv)) < 0 then Inl NegativeDimension
      else if fst (ck_model_state_dict ck) =
              \<lparr>bidirectional = True, vocab_size = length (ck_char2idx ck),
               embed_dim = arg_embed_dim a', hidden_size = arg_hidden_size a',
               num_classes = nat (Max (set (map row_num_syllables test_csv)))\<rparr>
      then Inr \<lparr>shape = fst (ck_model_state_dict ck), weights = snd (ck_model_state_dict ck),
                training = True\<rparr>
      else Inl SizeMismatch)"
proof -
  let ?ds = "StressDataset_init test_csv (Some (ck_char2idx ck)) TestMode"
  have ks: "ds_num_syllables ?ds = map row_num_syllables test_csv"
    by (simp add: StressDataset_init_def Let_def)
  from assms(1) have mx: "py_max (map row_num_syllables test_csv)
                            = Inr (Max (set (map row_num_syllables test_csv)))"
    by (intro py_max_Max) simp
  from DataLoader_init_items[OF assms(2)] obtain dl where
    dl: "DataLoader ?ds (batch_size a') False = Inr dl" by blast
  show ?thesis
    using assms(3,4)
    by (simp add: predict_setup_def loaded_model_def Let_def ks mx dl StressModel_init_def
        load_state_dict_def)
qed

lemma predict_setup_Copy1:
  assumes "0 < batch_size a'" "0 < arg_hidden_size a'" "0 < length (ck_char2idx ck)"
    and "0 < arg_embed_dim a'"
  shows "loaded_model (predict_setup Test_Copy1 env' a' ck test_csv) =
     (if fst (ck_model_state_dict ck) =
              \<lparr>bidirectional = False, vocab_size = length (ck_char2idx ck),
               embed_dim = arg_embed_dim a', hidden_size = arg_hidden_size a',
               num_classes = 6\<rparr>
      then Inr \<lparr>shape = fst (ck_model_state_dict ck), weights = snd (ck_model_state_dict ck),
                training = True\<rparr>
      else Inl SizeMismatch)"
proof -
  let ?ds = "StressDataset_init test_csv (Some (ck_char2idx ck)) TestMode"
  from DataLoader_init_items[OF assms(1)] obtain dl where
    dl: "DataLoader ?ds (batch_size a') False = Inr dl" by blast
  show ?thesis
    using assms(2,3,4)
    by (simp add: predict_setup_def loaded_model_def Let_def dl StressModel_init_def
        load_state_dict_def)
qed

lemma main_predict_not_loaded:
  "loaded_model (predict_setup nb env' a' ck test_csv) = Inl e
     \<Longrightarrow> main_predict nb env' a' ck test_csv = Inl e"
  by (auto simp: main_predict_def loaded_model_def split: sum.splits)

lemma saved_vocab_nonempty:
  assumes "main_train nb env a train_csv = Inr ck"
  shows "0 < length (ck_char2idx ck)"
  using main_train_saved[OF assms] by (simp add: vocab_length)

text \<open>
  Claim C1 on the code. For a checkpoint the train mode of \<^verbatim>\<open>Test\<close> saved, the
  predict mode of \<^verbatim>\<open>Test\<close> builds its model with the largest syllable count of
  the data to predict: when that differs from the largest syllable count of the training
  data, the model is not loaded and the run ends in an error, a size mismatch (or a
  negative dimension, or an embedding width of zero that the encoder refuses); when the
  two agree (and the widths are those of the training
  run) the loaded model has the class count of the saved one. The predict mode of
  \<^verbatim>\<open>Test-Copy1\<close> always loads a model with the class count of the saved one.
\<close>

theorem predict_class_count:
  "(main_train Test env a train_csv = Inr ck \<and> train_csv \<noteq> [] \<and> test_csv \<noteq> []
      \<and> 0 < batch_size a' \<and> 0 < arg_hidden_size a'
      \<and> Max (set (map row_num_syllables test_csv)) \<noteq> Max (set (map row_num_syllables train_csv))
    \<longrightarrow> loaded_num_classes Test env' a' ck test_csv
          = Inl (if arg_embed_dim a' = 0 then RecurrentSize
                 else if Max (set (map row_num_syllables test_csv)) < 0 then NegativeDimension
                 else SizeMismatch)
        \<and> main_predict Test env' a' ck test_csv
          = Inl (if arg_embed_dim a' = 0 then RecurrentSize
                 else if Max (set (map row_num_syllables test_csv)) < 0 then NegativeDimension
                 else SizeMismatch))
   \<and> (main_train Test env a train_csv = Inr ck \<and> train_csv \<noteq> [] \<and> test_csv \<noteq> []
      \<and> 0 < batch_size a' \<and> arg_embed_dim a' = arg_embed_dim a \<and> arg_hidden_size a' = arg_hidden_size a
      \<and> Max (set (map row_num_syllables test_csv)) = Max (set (map row_num_syllables train_csv))
    \<longrightarrow> loaded_num_classes Test env' a' ck test_csv = Inr (saved_num_classes ck))
   \<and> (main_train Test_Copy1 env a train_csv = Inr ck
      \<and> 0 < batch_size a' \<and> arg_embed_dim a' = arg_embed_dim a \<and> arg_hidden_size a' = arg_hidden_size a
    \<longrightarrow> loaded_num_classes Test_Copy1 env' a' ck test_csv = Inr (saved_num_classes ck))"
proof (intro conjI impI)
  assume h: "main_train Test env a train_csv = Inr ck \<and> train_csv \<noteq> [] \<and> test_csv \<noteq> []
      \<and> 0 < batch_size a' \<and> 0 < arg_hidden_size a'
      \<and> Max (set (map row_num_syllables test_csv)) \<noteq> Max (set (map row_num_syllables train_csv))"
  then have mt: "main_train Test env a train_csv = Inr ck" by simp
  note s = main_train_saved[OF mt]
  from s h have tr: "0 \<le> Max (set (map row_num_syllables train_csv))"
    "saved_num_classes ck = nat (Max (set (map row_num_syllables train_csv)))" by simp_all
  from s have sh: "num_classes (fst (ck_model_state_dict ck)) = saved_num_classes ck"
    by (simp add: saved_num_classes_def)
  have ne: "fst (ck_model_state_dict ck) \<noteq>
              \<lparr>bidirectional = True, vocab_size = length (ck_char2idx ck),
               embed_dim = arg_embed_dim a', hidden_size = arg_hidden_size a',
               num_classes = nat (Max (set (map row_num_syllables test_csv)))\<rparr>"
    if "\<not> Max (set (map row_num_syllables test_csv)) < 0"
  proof
    assume "fst (ck_model_state_dict ck) =
              \<lparr>bidirectional = True, vocab_size = length (ck_char2idx ck),
               embed_dim = arg_embed_dim a', hidden_size = arg_hidden_size a',
               num_classes = nat (Max (set (map row_num_syllables test_csv)))\<rparr>"
    then have "num_classes (fst (ck_model_state_dict ck)) = nat (Max (set (map row_num_syllables test_csv)))"
      by simp
    moreover from h have "Max (set (map row_num_syllables test_csv))
                            \<noteq> Max (set (map row_num_syllables train_csv))"
      by (elim conjE)
    ultimately show False using sh tr that by linarith
  qed
  have lm: "loaded_model (predict_setup Test env' a' ck test_csv)
          = Inl (if arg_embed_dim a' = 0 then RecurrentSize
                 else if Max (set (map row_num_syllables test_csv)) < 0 then NegativeDimension
                 else SizeMismatch)"
  proof -
    from h s have "test_csv \<noteq> []" "0 < batch_size a'" "0 < arg_hidden_size a'" by simp_all
    note ps = predict_setup_Test[OF this saved_vocab_nonempty[OF mt], of env']
    show ?thesis
    proof (cases "arg_embed_dim a' = 0")
      case True
      then show ?thesis unfolding ps by (simp only: if_True simp_thms)
    next
      case e: False
      show ?thesis
      proof (cases "Max (set (map row_num_syllables test_csv)) < 0")
        case True
        with e show ?thesis unfolding ps by (simp only: if_True if_False)
      next
        case False
        from ne[OF False] False e show ?thesis unfolding ps by (simp only: if_False)
      qed
    qed
  qed
  then show "loaded_num_classes Test env' a' ck test_csv
          = Inl (if arg_embed_dim a' = 0 then RecurrentSize
                 else if Max (set (map row_num_syllables test_csv)) < 0 then NegativeDimension
                 else SizeMismatch)"
    by (simp add: loaded_num_classes_def)
  from lm show "main_predict Test env' a' ck test_csv
          = Inl (if arg_embed_dim a' = 0 then RecurrentSize
                 else if Max (set (map row_num_syllables test_csv)) < 0 then NegativeDimension
                 else SizeMismatch)"
    by (rule main_predict_not_loaded)
next
  assume h: "main_train Test env a train_csv = Inr ck \<and> train_csv \<noteq> [] \<and> test_csv \<noteq> []
      \<and> 0 < batch_size a' \<and> arg_embed_dim a' = arg_embed_dim a \<and> arg_hidden_size a' = arg_hidden_size a
      \<and> Max (set (map row_num_syllables test_csv)) = Max (set (map row_num_syllables train_csv))"
  then have mt: "main_train Test env a train_csv = Inr ck" by simp
  note s = main_train_saved[OF mt]
  from s h have tr: "0 \<le> Max (set (map row_num_syllables train_csv))"
    "saved_num_classes ck = nat (Max (set (map row_num_syllables train_csv)))" by simp_all
  from s h tr have eq: "fst (ck_model_state_dict ck) =
              \<lparr>bidirectional = True, vocab_size = length (ck_char2idx ck),
               embed_dim = arg_embed_dim a', hidden_size = arg_hidden_size a',
               num_classes = nat (Max (set (map row_num_syllables test_csv)))\<rparr>"
    by simp
  have "loaded_model (predict_setup Test env' a' ck test_csv)
          = Inr \<lparr>shape = fst (ck_model_state_dict ck), weights = snd (ck_model_state_dict ck),
                training = True\<rparr>"
  proof -
    from h s have "test_csv \<noteq> []" "0 < batch_size a'" "0 < arg_hidden_size a'" by simp_all
    note ps = predict_setup_Test[OF this saved_vocab_nonempty[OF mt], of env']
    from h tr have "\<not> Max (set (map row_num_syllables test_csv)) < 0" by linarith
    moreover from h main_train_ok[OF mt] have "\<not> arg_embed_dim a' = 0" by simp
    ultimately show ?thesis using eq unfolding ps by (simp only: if_False if_True simp_thms)
  qed
  then show "loaded_num_classes Test env' a' ck test_csv = Inr (saved_num_classes ck)"
    by (simp add: loaded_num_classes_def saved_num_classes_def)
next
  assume h: "main_train Test_Copy1 env a train_csv = Inr ck
      \<and> 0 < batch_size a' \<and> arg_embed_dim a' = arg_embed_dim a \<and> arg_hidden_size a' = arg_hidden_size a"
  then have mt: "main_train Test_Copy1 env a train_csv = Inr ck" by simp
  note s = main_train_saved[OF mt]
  from s h have eq: "fst (ck_model_state_dict ck) =
              \<lparr>bidirectional = False, vocab_size = length (ck_char2idx ck),
               embed_dim = arg_embed_dim a', hidden_size = arg_hidden_size a',
               num_classes = 6\<rparr>"
    by simp
  have "loaded_model (predict_setup Test_Copy1 env' a' ck test_csv)
          = Inr \<lparr>shape = fst (ck_model_state_dict ck), weights = snd (ck_model_state_dict ck),
                training = True\<rparr>"
  proof -
    from h s have "0 < batch_size a'" "0 < arg_hidden_size a'" by simp_all
    moreover from h main_train_ok[OF mt] have "0 < arg_embed_dim a'" by simp
    ultimately have ps: "loaded_model (predict_setup Test_Copy1 env' a' ck test_csv) =
     (if fst (ck_model_state_dict ck) =
              \<lparr>bidirectional = False, vocab_size = length (ck_char2idx ck),
               embed_dim = arg_embed_dim a', hidden_size = arg_hidden_size a',
               num_classes = 6\<rparr>
      then Inr \<lparr>shape = fst (ck_model_state_dict ck), weights = snd (ck_model_state_dict ck),
                training = True\<rparr>
      else Inl SizeMismatch)"
      using saved_vocab_nonempty[OF mt] by (intro predict_setup_Copy1)
    from eq show ?thesis unfolding ps by (simp only: if_True simp_thms)
  qed
  then show "loaded_num_classes Test_Copy1 env' a' ck test_csv = Inr (saved_num_classes ck)"
    by (simp add: loaded_num_classes_def saved_num_classes_def)
qed


theorem predict_class_count_witness:
  "train_then_predict Test example_env example_args example_train_csv example_test_csv
     = Inl SizeMismatch
   \<and> Max (set (map row_num_syllables example_test_csv)) = 2
   \<and> Max (set (map row_num_syllables example_train_csv)) = 3
   \<and> (\<exists>ck. main_train Test example_env example_args example_train_csv = Inr ck
          \<and> loaded_num_classes Test example_env example_args ck example_train_csv
              = Inr (saved_num_classes ck))
   \<and> (\<exists>ck. main_train Test_Copy1 example_env example_args example_train_csv = Inr ck
          \<and> loaded_num_classes Test_Copy1 example_env example_args ck example_test_csv
              = Inr (saved_num_classes ck))"
proof -
  from example_train_Test obtain ck where
    mt: "main_train Test example_env example_args example_train_csv = Inr ck" by blast
  have h: "main_train Test example_env example_args example_train_csv = Inr ck
      \<and> example_train_csv \<noteq> [] \<and> example_test_csv \<noteq> []
      \<and> 0 < batch_size example_args \<and> 0 < arg_hidden_size example_args
      \<and> Max (set (map row_num_syllables example_test_csv))
          \<noteq> Max (set (map row_num_syllables example_train_csv))"
    unfolding example_max_test example_max_train using mt
    by (simp add: example_train_csv_def example_test_csv_def example_args_def)
  from predict_class_count[of example_env example_args example_train_csv ck example_test_csv
      example_args example_env, THEN conjunct1, rule_format, OF h]
  have "main_predict Test example_env example_args ck example_test_csv
          = Inl (if arg_embed_dim example_args = 0 then RecurrentSize
                 else if Max (set (map row_num_syllables example_test_csv)) < 0 then NegativeDimension
                 else SizeMismatch)"
    by (elim conjE)
  then have "main_predict Test example_env example_args ck example_test_csv = Inl SizeMismatch"
    unfolding example_max_test by (simp add: example_args_def)
  then have r1: "train_then_predict Test example_env example_args example_train_csv example_test_csv
     = Inl SizeMismatch"
    by (simp add: train_then_predict_def mt)
  have h2: "main_train Test example_env example_args example_train_csv = Inr ck
      \<and> example_train_csv \<noteq> [] \<and> example_train_csv \<noteq> []
      \<and> 0 < batch_size example_args \<and> arg_embed_dim example_args = arg_embed_dim example_args
      \<and> arg_hidden_size example_args = arg_hidden_size example_args
      \<and> Max (set (map row_num_syllables example_train_csv))
          = Max (set (map row_num_syllables example_train_csv))"
    using mt by (simp add: example_train_csv_def example_args_def)
  from predict_class_count[of example_env example_args example_train_csv ck example_train_csv
      example_args example_env, THEN conjunct2, THEN conjunct1, rule_format, OF h2] mt
  have r2: "\<exists>ck. main_train Test example_env example_args example_train_csv = Inr ck
          \<and> loaded_num_classes Test example_env example_args ck example_train_csv
              = Inr (saved_num_classes ck)"
    by blast
  from example_train_Copy1 obtain ck' where
    mt': "main_train Test_Copy1 example_env example_args example_train_csv = Inr ck'" by blast
  have h3: "main_train Test_Copy1 example_env example_args example_train_csv = Inr ck'
      \<and> 0 < batch_size example_args \<and> arg_embed_dim example_args = arg_embed_dim example_args
      \<and> arg_hidden_size example_args = arg_hidden_size example_args"
    using mt' by (simp add: example_args_def)
  from predict_class_count[of example_env example_args example_train_csv ck' example_test_csv
      example_args example_env, THEN conjunct2, THEN conjunct2, rule_format, OF h3] mt'
  have r3: "\<exists>ck. main_train Test_Copy1 example_env example_args example_train_csv = Inr ck
          \<and> loaded_num_classes Test_Copy1 example_env example_args ck example_test_csv
              = Inr (saved_num_classes ck)"
    by blast
  from r1 example_max_test example_max_train r2 r3 show ?thesis by (intro conjI)
qed

subsection \<open>Saving and loading\<close>

lemma predict_setup_parts:
  assumes "predict_setup nb env' a' ck test_csv = Inr (ds, test_loader, model)"
  shows "DataLoader (StressDataset_init test_csv (Some (ck_char2idx ck)) TestMode) (batch_size a') False
           = Inr test_loader
       \<and> ds = StressDataset_init test_csv (Some (ck_char2idx ck)) TestMode
       \<and> shape model = fst (ck_model_state_dict ck)
       \<and> weights model = snd (ck_model_state_dict ck)"
proof (cases nb)
  case Test
  with assms show ?thesis
    by (auto simp: predict_setup_def Let_def StressModel_init_def load_state_dict_def
        split: sum.splits if_splits)
next
  case Test_Copy1
  with assms show ?thesis
    by (auto simp: predict_setup_def Let_def StressModel_init_def load_state_dict_def
        split: sum.splits if_splits)
qed

lemma predict_same_tensors:
  assumes "shape m1 = shape m2" "weights m1 = weights m2"
  shows "predict m1 dl = predict m2 dl"
proof -
  from assms have "m1\<lparr>training := False\<rparr> = m2\<lparr>training := False\<rparr>"
    by (cases m1, cases m2) simp
  then show ?thesis by (simp add: predict_def)
qed

lemma loaded_model_Inr:
  "loaded_model r = Inr model \<Longrightarrow> \<exists>ds test_loader. r = Inr (ds, test_loader, model)"
  by (auto simp: loaded_model_def split: sum.splits)

lemma round_trip_when_loaded:
  assumes "main_train nb env a train_csv = Inr ck" "batch_size a' = batch_size a"
    and "predict_setup nb env' a' ck test_csv = Inr (ds, test_loader, model)"
  shows "main_predict nb env' a' ck test_csv =
           (case train_and_predict_unsaved nb env a train_csv test_csv of
              Inl e \<Rightarrow> Inl e
            | Inr (ids_all, preds) \<Rightarrow>
                Inr \<lparr>sub_id = ids_all, sub_words = map row_word test_csv, sub_stress = preds\<rparr>)"
proof -
  from main_train_parts[OF assms(1)] obtain dtr train_loader val_loader m0 m1 where
    s: "train_setup nb env a train_csv = Inr (dtr, train_loader, val_loader, m0)"
    and e: "epoch_loop env train_loader val_loader 0 (epochs a) m0 (optimizer_init env) = Inr m1"
    and ck: "ck = \<lparr>ck_model_state_dict = state_dict m1, ck_char2idx = ds_char2idx dtr\<rparr>"
    by blast
  note p = predict_setup_parts[OF assms(3)]
  from p ck have eqs: "shape model = shape m1" "weights model = weights m1"
    by (simp_all add: state_dict_def)
  from p ck assms(2) have dl: "DataLoader (StressDataset_init test_csv (Some (ds_char2idx dtr)) TestMode)
           (batch_size a) False = Inr test_loader"
    by simp
  from p have w: "ds_words ds = map row_word test_csv"
    by (simp add: StressDataset_init_def Let_def)
  have u: "train_and_predict_unsaved nb env a train_csv test_csv = predict m1 test_loader"
    by (simp add: train_and_predict_unsaved_def s e dl)
  have "main_predict nb env' a' ck test_csv =
          (case predict model test_loader of
             Inl e \<Rightarrow> Inl e
           | Inr (ids_all, preds) \<Rightarrow>
               Inr \<lparr>sub_id = ids_all, sub_words = ds_words ds, sub_stress = preds\<rparr>)"
    by (simp add: main_predict_def assms(3))
  then show ?thesis
    unfolding u w predict_same_tensors[OF eqs] .
qed

text \<open>
  Claim C9 on the code. Whenever the predict mode gets as far as a loaded model, its
  output is the predictions of the trained model itself, taken before saving, on the
  same input. On the example the predict mode of \<^verbatim>\<open>Test\<close> does not get there:
  the trained model predicts the stresses 1 and 2 for the two words, and the run that
  loads its checkpoint ends in a size mismatch, because the data to predict has no word
  of three syllables.
\<close>

theorem checkpoint_round_trip:
  "(main_train nb env a train_csv = Inr ck \<and> batch_size a' = batch_size a
      \<and> predict_setup nb env' a' ck test_csv = Inr (ds, test_loader, model)
    \<longrightarrow> main_predict nb env' a' ck test_csv =
           (case train_and_predict_unsaved nb env a train_csv test_csv of
              Inl e \<Rightarrow> Inl e
            | Inr (ids_all, preds) \<Rightarrow>
                Inr \<lparr>sub_id = ids_all, sub_words = map row_word test_csv, sub_stress = preds\<rparr>))
   \<and> train_and_predict_unsaved Test example_env example_args example_train_csv example_test_csv
       = Inr ([1, 2], [1, 2])
   \<and> train_then_predict Test example_env example_args example_train_csv example_test_csv
       = Inl SizeMismatch"
proof (intro conjI impI)
  assume "main_train nb env a train_csv = Inr ck \<and> batch_size a' = batch_size a
      \<and> predict_setup nb env' a' ck test_csv = Inr (ds, test_loader, model)"
  then show "main_predict nb env' a' ck test_csv =
           (case train_and_predict_unsaved nb env a train_csv test_csv of
              Inl e \<Rightarrow> Inl e
            | Inr (ids_all, preds) \<Rightarrow>
                Inr \<lparr>sub_id = ids_all, sub_words = map row_word test_csv, sub_stress = preds\<rparr>)"
    using round_trip_when_loaded by blast
next
  show "train_and_predict_unsaved Test example_env example_args example_train_csv example_test_csv
       = Inr ([1, 2], [1, 2])"
    by (rule example_unsaved_Test)
next
  show "train_then_predict Test example_env example_args example_train_csv example_test_csv
       = Inl SizeMismatch"
    by (simp add: example_run train_then_predict_def main_predict_def predict_setup_def
        load_state_dict_def)
qed

theorem checkpoint_round_trip_witness:
  "train_then_predict Test_Copy1 example_env example_args example_train_csv example_test_csv
     = Inr \<lparr>sub_id = [1, 2], sub_words = [[99, 97, 116], [97, 112, 112, 108, 101]],
            sub_stress = [1, 2]\<rparr>
   \<and> train_and_predict_unsaved Test_Copy1 example_env example_args example_train_csv example_test_csv
     = Inr ([1, 2], [1, 2])"
proof -
  from example_train_Copy1 obtain ck where
    mt: "main_train Test_Copy1 example_env example_args example_train_csv = Inr ck" by blast
  note s = main_train_saved[OF mt]
  have bs: "0 < batch_size example_args" "0 < arg_hidden_size example_args"
    by (simp_all add: example_args_def)
  have em: "0 < arg_embed_dim example_args" by (simp add: example_args_def)
  from s have eq: "fst (ck_model_state_dict ck) =
              \<lparr>bidirectional = False, vocab_size = length (ck_char2idx ck),
               embed_dim = arg_embed_dim example_args, hidden_size = arg_hidden_size example_args,
               num_classes = 6\<rparr>"
    by simp
  have "loaded_model (predict_setup Test_Copy1 example_env example_args ck example_test_csv)
          = Inr \<lparr>shape = fst (ck_model_state_dict ck), weights = snd (ck_model_state_dict ck),
                training = True\<rparr>"
    unfolding predict_setup_Copy1[OF bs saved_vocab_nonempty[OF mt] em, of example_env example_test_csv]
    using eq by (simp only: if_True simp_thms)
  from loaded_model_Inr[OF this] obtain ds test_loader where
    ps: "predict_setup Test_Copy1 example_env example_args ck example_test_csv
           = Inr (ds, test_loader, \<lparr>shape = fst (ck_model_state_dict ck),
                   weights = snd (ck_model_state_dict ck), training = True\<rparr>)"
    by blast
  have h: "main_train Test_Copy1 example_env example_args example_train_csv = Inr ck
      \<and> batch_size example_args = batch_size example_args
      \<and> predict_setup Test_Copy1 example_env example_args ck example_test_csv
           = Inr (ds, test_loader, \<lparr>shape = fst (ck_model_state_dict ck),
                   weights = snd (ck_model_state_dict ck), training = True\<rparr>)"
    using mt ps by simp
  from checkpoint_round_trip[THEN conjunct1, rule_format, OF h]
  have "main_predict Test_Copy1 example_env example_args ck example_test_csv
          = Inr \<lparr>sub_id = [1, 2], sub_words = map row_word example_test_csv, sub_stress = [1, 2]\<rparr>"
    unfolding example_unsaved_Copy1 by simp
  then have "train_then_predict Test_Copy1 example_env example_args example_train_csv example_test_csv
     = Inr \<lparr>sub_id = [1, 2], sub_words = [[99, 97, 116], [97, 112, 112, 108, 101]],
            sub_stress = [1, 2]\<rparr>"
    by (simp add: train_then_predict_def mt example_test_csv_def)
  with example_unsaved_Copy1 show ?thesis by (intro conjI)
qed

subsection \<open>An invalid example ends the training run\<close>

lemma map_err_Inr:
  "map_err f xs = Inr ys \<Longrightarrow> length ys = length xs \<and> (\<forall>i<length xs. f (xs ! i) = Inr (ys ! i))"
proof (induction xs arbitrary: ys)
  case Nil
  then show ?case by simp
next
  case (Cons x xs)
  from Cons.prems obtain y ys' where y: "f x = Inr y" "map_err f xs = Inr ys'" "ys = y # ys'"
    by (auto split: sum.splits)
  from Cons.IH[OF y(2)] y(1,3) show ?case
    by (auto simp: nth_Cons split: nat.splits)
qed

lemma forward_length:
  assumes "forward model noise x lengths = Inr logits"
  shows "length logits = length x"
proof -
  from assms obtain embedded packed where
    e: "map_err (map_err (embedding model)) x = Inr embedded"
    and p: "pack_padded_sequence embedded lengths = Inr packed"
    and l: "logits = map (\<lambda>(i, seq). fc model (summary model (noise i) seq)) (enumerate 0 packed)"
    by (auto simp: forward_def split: sum.splits)
  from map_err_Inr[OF e] have "length embedded = length x" by simp
  moreover from p have "length packed = length embedded"
    by (auto simp: pack_padded_sequence_def split: if_splits)
  ultimately show ?thesis using l by simp
qed

lemma collate_fn_parts:
  assumes "collate_fn items = Inr b"
  shows "length (b_encoded b) = length items
       \<and> b_num_syllables b = map item_num_syllables items
       \<and> (\<forall>stresses. b_stress b = Some stresses \<longrightarrow>
            length stresses = length items
            \<and> (\<forall>i<length items. item_stress (items ! i) = Some (stresses ! i)))"
proof -
  from assms obtain padded where pd: "pad_sequence (map item_encoded items) = Inr padded"
    by (auto simp: collate_fn_def Let_def split: sum.splits)
  then have lp: "length padded = length items"
    by (auto simp: pad_sequence_def Let_def split: if_splits)
  show ?thesis
  proof (cases "item_stress (hd items) \<noteq> None")
    case False
    with assms pd lp show ?thesis
      by (auto simp: collate_fn_def Let_def)
  next
    case True
    with assms pd obtain stresses where
      st: "map_err (\<lambda>b. case item_stress b of None \<Rightarrow> Inl NoStress | Some s \<Rightarrow> Inr s) items = Inr stresses"
      and b: "b = \<lparr>b_id = map item_id items, b_encoded = padded, b_lengths = map length (map item_encoded items),
                   b_num_syllables = map item_num_syllables items, b_stress = Some stresses\<rparr>"
      by (auto simp: collate_fn_def Let_def split: sum.splits)
    from map_err_Inr[OF st] have ls: "length stresses = length items"
      and each: "\<forall>i<length items. (case item_stress (items ! i) of None \<Rightarrow> Inl NoStress | Some s \<Rightarrow> Inr s)
                    = Inr (stresses ! i)"
      by simp_all
    have "item_stress (items ! i) = Some (stresses ! i)" if "i < length items" for i
      using each[rule_format, OF that] by (cases "item_stress (items ! i)") simp_all
    with ls lp b show ?thesis by simp
  qed
qed

lemma train_step_invalid:
  assumes "it \<in> set items" "item_stress it = Some s" "item_num_syllables it = k"
    and "0 \<le> k" "k = 0 \<or> s < 1 \<or> k < s" "s \<noteq> - 99"
  shows "\<exists>e. train_loop env epoch bi (items # rest) model ost total_loss = Inl e"
proof (cases "collate_fn items")
  case (Inl e)
  then show ?thesis by simp
next
  case (Inr b)
  note c = collate_fn_parts[OF Inr]
  show ?thesis
  proof (cases "forward model (dropout_noise env epoch bi) (b_encoded b) (b_lengths b)")
    case (Inl e)
    with Inr show ?thesis by simp
  next
    case fw: (Inr logits)
    show ?thesis
    proof (cases "b_stress b")
      case None
      with Inr fw show ?thesis by simp
    next
      case (Some stresses)
      from assms(1) obtain i where i: "i < length items" "items ! i = it"
        by (auto simp: in_set_conv_nth)
      from c Some have ls: "length stresses = length items"
        and si: "item_stress (items ! i) = Some (stresses ! i)"
        using i(1) by simp_all
      from forward_length[OF fw] c have ll: "length logits = length items" by simp
      from si i assms(2) have s: "stresses ! i = s" by simp
      from c i assms(3) have k: "b_num_syllables b ! i = k" by simp
      have "masked_cross_entropy_loss logits stresses (b_num_syllables b) = Inl TargetOutOfBounds"
      proof (rule masked_loss_invalid[where i = i])
        show "length stresses = length logits" using ls ll by simp
        show "length (b_num_syllables b) = length logits" using c ll by simp
        show "i < length logits" using i ll by simp
        show "0 \<le> b_num_syllables b ! i" using k assms(4) by simp
        show "b_num_syllables b ! i = 0 \<or> stresses ! i < 1 \<or> b_num_syllables b ! i < stresses ! i"
          using k s assms(5) by simp
        show "stresses ! i \<noteq> - 99" using s assms(6) by simp
      qed
      with Inr fw Some show ?thesis by simp
    qed
  qed
qed

lemma train_loop_invalid:
  assumes "items \<in> set batches" "it \<in> set items" "item_stress it = Some s" "item_num_syllables it = k"
    and "0 \<le> k" "k = 0 \<or> s < 1 \<or> k < s" "s \<noteq> - 99"
  shows "\<exists>e. train_loop env epoch bi batches model ost total_loss = Inl e"
  using assms(1)
proof (induction batches arbitrary: bi model ost total_loss)
  case Nil
  then show ?case by simp
next
  case (Cons b rest)
  show ?case
  proof (cases "items = b")
    case True
    then show ?thesis using train_step_invalid[OF assms(2-7)] by simp
  next
    case False
    with Cons.prems have "items \<in> set rest" by simp
    note ih = Cons.IH[OF this]
    show ?thesis
    proof (cases "train_loop env epoch bi (b # rest) model ost total_loss")
      case (Inl e)
      then show ?thesis by simp
    next
      case (Inr r)
      then obtain bt batch_loss where
        eq: "train_loop env epoch (Suc bi) rest
          (model\<lparr>weights := snd (optimizer_step env ost model bt (dropout_noise env epoch bi))\<rparr>)
          (fst (optimizer_step env ost model bt (dropout_noise env epoch bi)))
          (loss_add total_loss batch_loss) = Inr r"
        by (auto simp: Let_def split: sum.splits option.splits)
      from ih[of "Suc bi"
          "model\<lparr>weights := snd (optimizer_step env ost model bt (dropout_noise env epoch bi))\<rparr>"
          "fst (optimizer_step env ost model bt (dropout_noise env epoch bi))"
          "loss_add total_loss batch_loss"] eq
      show ?thesis by simp
    qed
  qed
qed

lemma chunks_cover:
  "x \<in> set xs \<Longrightarrow> 0 < n \<Longrightarrow> \<exists>c\<in>set (chunks n xs). x \<in> set c"
proof (induction n xs rule: chunks.induct)
  case (1 n xs)
  from "1.prems" have ne: "\<not> (n = 0 \<or> xs = [])" by auto
  have "set xs = set (take n xs) \<union> set (drop n xs)"
    by (metis append_take_drop_id set_append)
  with "1.prems"(1) consider "x \<in> set (take n xs)" | "x \<in> set (drop n xs)" by blast
  then show ?case
  proof cases
    case 1
    with ne show ?thesis by (subst chunks.simps) simp
  next
    case 2
    from "1.IH"[OF ne 2 "1.prems"(2)] obtain c where "c \<in> set (chunks n (drop n xs))" "x \<in> set c"
      by blast
    with ne show ?thesis by (subst chunks.simps) auto
  qed
qed


lemma DataLoader_init_row:
  assumes "0 < n" "row \<in> set csv"
  shows "\<exists>dl. DataLoader (StressDataset_init csv c TrainMode) n sh = Inr dl
           \<and> l_batch_size dl = n \<and> l_shuffle dl = sh
           \<and> (\<exists>it\<in>set (l_items dl). item_stress it = Some (row_stress row)
                  \<and> item_num_syllables it = row_num_syllables row)"
proof -
  let ?ds = "StressDataset_init csv c TrainMode"
  let ?g = "\<lambda>i. \<lparr>item_id = row_id (csv ! i), item_word = row_word (csv ! i),
                item_encoded = encode_word (row_word (csv ! i))
                                 (case c of None \<Rightarrow> fst (build_vocab (map row_word csv)) | Some d \<Rightarrow> d),
                item_num_syllables = row_num_syllables (csv ! i),
                item_stress = (if TrainMode = TrainMode then Some (row_stress (csv ! i)) else None)\<rparr>"
  have len: "length (ds_words ?ds) = length csv" by (simp add: StressDataset_init_def Let_def)
  have "map_err (getitem ?ds) [0..<length csv] = Inr (map ?g [0..<length csv])"
    by (rule map_err_all) (simp add: getitem_init)
  moreover from assms(2) have "csv \<noteq> []" by auto
  ultimately have dl: "DataLoader ?ds n sh
      = Inr \<lparr>l_items = map ?g [0..<length csv], l_batch_size = n, l_shuffle = sh\<rparr>"
    using assms(1) by (simp add: DataLoader_def len)
  from assms(2) obtain i where i: "i < length csv" "csv ! i = row"
    by (auto simp: in_set_conv_nth)
  then have "?g i \<in> set (map ?g [0..<length csv])"
    unfolding set_map by (intro imageI) simp
  moreover have "item_stress (?g i) = Some (row_stress row)"
    "item_num_syllables (?g i) = row_num_syllables row" using i by simp_all
  ultimately have "\<exists>it\<in>set (map ?g [0..<length csv]). item_stress it = Some (row_stress row)
                  \<and> item_num_syllables it = row_num_syllables row"
    by blast
  with dl show ?thesis by simp
qed

lemma train_model_invalid:
  assumes "it \<in> set (l_items dl)" "l_shuffle dl" "0 < l_batch_size dl"
    and "set (shuffle_order env epoch (l_items dl)) = set (l_items dl)"
    and "item_stress it = Some s" "item_num_syllables it = k"
    and "0 \<le> k" "k = 0 \<or> s < 1 \<or> k < s" "s \<noteq> - 99"
  shows "\<exists>e. train_model env epoch model dl ost = Inl e"
proof -
  let ?batches = "iterate dl (shuffle_order env epoch)"
  from assms(1,4) have "it \<in> set (shuffle_order env epoch (l_items dl))" by simp
  from chunks_cover[OF this assms(3)] assms(2) obtain items where
    "items \<in> set ?batches" "it \<in> set items"
    by (auto simp: iterate_def)
  from train_loop_invalid[OF this assms(5-9), where env = env and epoch = epoch and bi = 0
      and model = "model\<lparr>training := True\<rparr>" and ost = ost and total_loss = "Finite 0"]
  obtain e where
    "train_loop env epoch 0 ?batches (model\<lparr>training := True\<rparr>) ost (Finite 0) = Inl e"
    by blast
  then show ?thesis by (simp add: train_model_def Let_def)
qed

lemma main_train_invalid:
  assumes "row \<in> set train_csv" "0 \<le> row_num_syllables row"
    and "row_num_syllables row = 0 \<or> row_stress row < 1 \<or> row_num_syllables row < row_stress row"
    and "row_stress row \<noteq> - 99" "0 < epochs a"
    and "\<forall>items. set (shuffle_order env 0 items) = set items"
  shows "\<exists>e. main_train nb env a train_csv = Inl e"
proof (cases "train_setup nb env a train_csv")
  case (Inl e)
  then show ?thesis by (simp add: main_train_def)
next
  case (Inr r)
  then obtain ds train_loader val_loader model where
    r: "train_setup nb env a train_csv = Inr (ds, train_loader, val_loader, model)"
    by (cases r) auto
  from train_setup_parts[OF r] have bs: "0 < batch_size a" by simp
  from r have tl: "DataLoader (StressDataset_init train_csv None TrainMode) (batch_size a) True
                     = Inr train_loader"
    by (auto simp: train_setup_def Let_def split: sum.splits)
  from DataLoader_init_row[OF bs assms(1), of None True] tl obtain it where
    it: "it \<in> set (l_items train_loader)" "item_stress it = Some (row_stress row)"
      "item_num_syllables it = row_num_syllables row"
    and l: "l_batch_size train_loader = batch_size a" "l_shuffle train_loader"
    by auto
  from assms(5) obtain n where n: "epochs a = Suc n" by (cases "epochs a") auto
  from assms(6) have sh: "set (shuffle_order env 0 (l_items train_loader)) = set (l_items train_loader)"
    by simp
  from l bs have bs': "0 < l_batch_size train_loader" by simp
  from train_model_invalid[OF it(1) l(2) bs' sh it(2,3) assms(2,3,4)] obtain e where
    "train_model env 0 model train_loader (optimizer_init env) = Inl e" by blast
  then show ?thesis by (simp add: main_train_def r n)
qed

lemma predict_rows_zero:
  assumes "i < length logits" "i < length ks" "ks ! i = 0"
  shows "\<exists>e. predict_rows logits ks = Inl e"
  using assms
proof (induction logits ks arbitrary: i rule: predict_rows.induct)
  case (1 ks)
  then show ?case by simp
next
  case (2 l ls k ks)
  show ?case
  proof (cases i)
    case 0
    with "2.prems" show ?thesis by (simp add: decode_zero)
  next
    case (Suc j)
    show ?thesis
    proof (cases "decode l k")
      case (Inl e)
      then show ?thesis by simp
    next
      case (Inr pred)
      from Suc "2.prems" have "j < length ls" "j < length ks" "ks ! j = 0" by simp_all
      from "2.IH"[OF Inr this] obtain e where "predict_rows ls ks = Inl e" by blast
      with Inr show ?thesis by simp
    qed
  qed
next
  case (3 l ls)
  then show ?case by simp
qed

lemma predict_loop_zero:
  assumes "items \<in> set batches" "it \<in> set items" "item_num_syllables it = 0"
  shows "\<exists>e. predict_loop model batches = Inl e"
  using assms(1)
proof (induction batches)
  case Nil
  then show ?case by simp
next
  case (Cons b rest)
  show ?case
  proof (cases "items = b")
    case True
    show ?thesis
    proof (cases "collate_fn b")
      case (Inl e)
      then show ?thesis by simp
    next
      case (Inr bt)
      note c = collate_fn_parts[OF Inr]
      show ?thesis
      proof (cases "forward model (\<lambda>i j. 1) (b_encoded bt) (b_lengths bt)")
        case (Inl e)
        with Inr show ?thesis by simp
      next
        case fw: (Inr logits)
        from assms(2) True obtain i where i: "i < length b" "b ! i = it"
          by (auto simp: in_set_conv_nth)
        from forward_length[OF fw] c have ll: "length logits = length b" by simp
        from c i assms(3) have k: "b_num_syllables bt ! i = 0" "i < length (b_num_syllables bt)"
          by simp_all
        from i ll have "i < length logits" by simp
        from predict_rows_zero[OF this k(2) k(1)] obtain e where
          "predict_rows logits (b_num_syllables bt) = Inl e" by blast
        with Inr fw show ?thesis by simp
      qed
    qed
  next
    case False
    with Cons.prems have "items \<in> set rest" by simp
    from Cons.IH[OF this] obtain e where r: "predict_loop model rest = Inl e" by blast
    show ?thesis
    proof (cases "collate_fn b")
      case (Inl e')
      then show ?thesis by simp
    next
      case (Inr bt)
      show ?thesis
      proof (cases "forward model (\<lambda>i j. 1) (b_encoded bt) (b_lengths bt)")
        case (Inl e')
        with Inr show ?thesis by simp
      next
        case fw: (Inr logits)
        show ?thesis
        proof (cases "predict_rows logits (b_num_syllables bt)")
          case (Inl e')
          with Inr fw show ?thesis by simp
        next
          case pr: (Inr preds)
          with Inr fw r show ?thesis by simp
        qed
      qed
    qed
  qed
qed

lemma predict_zero:
  assumes "it \<in> set (l_items dl)" "0 < l_batch_size dl" "item_num_syllables it = 0"
  shows "\<exists>e. predict model dl = Inl e"
proof -
  from chunks_cover[OF assms(1,2)] obtain items where
    "items \<in> set (iterate dl (\<lambda>items. items))" "it \<in> set items"
    by (auto simp: iterate_def)
  from predict_loop_zero[OF this assms(3)] show ?thesis by (simp add: predict_def)
qed


text \<open>
  Claim C5, as the code has it. For a syllable count \<open>k \<ge> 0\<close> and a label other than
  \<open>-99\<close>, an example whose syllable count is zero or whose label lies outside
  \<open>[1, k]\<close> makes the loss of the row fail, and with it the loss of every batch that
  holds such a row; nothing is clamped or skipped. For a syllable count of zero the
  decoding step and the evaluation step fail as well. The failure ends the run: the
  train mode over data with such a row returns an error as soon as it runs an epoch
  (each pass visits every item), and \<^verbatim>\<open>predict\<close> over a loader with an item of
  syllable count zero returns an error.
\<close>

theorem invalid_example_fails:
  "(0 \<le> k \<and> (k = 0 \<or> s < 1 \<or> k < s) \<and> s \<noteq> - 99 \<longrightarrow> example_loss L k s = Inl TargetOutOfBounds)
   \<and> decode L 0 = Inl EmptyArgmax
   \<and> evaluate_example L 0 s = Inl EmptyArgmax
   \<and> (length stresses = length logits \<and> length num_syllables = length logits
        \<and> i < length logits \<and> 0 \<le> num_syllables ! i
        \<and> (num_syllables ! i = 0 \<or> stresses ! i < 1 \<or> num_syllables ! i < stresses ! i)
        \<and> stresses ! i \<noteq> - 99
      \<longrightarrow> masked_cross_entropy_loss logits stresses num_syllables = Inl TargetOutOfBounds)
   \<and> (row \<in> set train_csv \<and> 0 \<le> row_num_syllables row
        \<and> (row_num_syllables row = 0 \<or> row_stress row < 1 \<or> row_num_syllables row < row_stress row)
        \<and> row_stress row \<noteq> - 99 \<and> 0 < epochs a
        \<and> (\<forall>items. set (shuffle_order env 0 items) = set items)
      \<longrightarrow> (\<exists>e. main_train nb env a train_csv = Inl e))
   \<and> (it \<in> set (l_items dl) \<and> 0 < l_batch_size dl \<and> item_num_syllables it = 0
      \<longrightarrow> (\<exists>e. predict model dl = Inl e))"
proof (intro conjI impI)
  assume "0 \<le> k \<and> (k = 0 \<or> s < 1 \<or> k < s) \<and> s \<noteq> - 99"
  then show "example_loss L k s = Inl TargetOutOfBounds"
    by (intro example_loss_invalid) simp_all
next
  show "decode L 0 = Inl EmptyArgmax" by (rule decode_zero)
  show "evaluate_example L 0 s = Inl EmptyArgmax" by (rule evaluate_example_zero)
next
  assume "length stresses = length logits \<and> length num_syllables = length logits
        \<and> i < length logits \<and> 0 \<le> num_syllables ! i
        \<and> (num_syllables ! i = 0 \<or> stresses ! i < 1 \<or> num_syllables ! i < stresses ! i)
        \<and> stresses ! i \<noteq> - 99"
  then show "masked_cross_entropy_loss logits stresses num_syllables = Inl TargetOutOfBounds"
    by (intro masked_loss_invalid[of stresses logits num_syllables i]) simp_all
next
  assume "row \<in> set train_csv \<and> 0 \<le> row_num_syllables row
        \<and> (row_num_syllables row = 0 \<or> row_stress row < 1 \<or> row_num_syllables row < row_stress row)
        \<and> row_stress row \<noteq> - 99 \<and> 0 < epochs a
        \<and> (\<forall>items. set (shuffle_order env 0 items) = set items)"
  then show "\<exists>e. main_train nb env a train_csv = Inl e"
    by (intro main_train_invalid[of row]) simp_all
next
  assume "it \<in> set (l_items dl) \<and> 0 < l_batch_size dl \<and> item_num_syllables it = 0"
  then show "\<exists>e. predict model dl = Inl e"
    by (intro predict_zero[of it]) simp_all
qed

theorem invalid_example_fails_witness:
  "example_loss [0, 0, 0] 2 3 = Inl TargetOutOfBounds
   \<and> example_loss [0, 0, 0] 0 1 = Inl TargetOutOfBounds
   \<and> masked_cross_entropy_loss [[0, 0, 0], [0, 0, 0]] [1, 0] [3, 3] = Inl TargetOutOfBounds
   \<and> (\<exists>e. main_train Test example_env example_args
             [\<lparr>row_id = 1, row_word = [99, 97, 116], row_num_syllables = 1, row_stress = 2\<rparr>] = Inl e)
   \<and> (\<exists>e. predict example_model
             \<lparr>l_items = [\<lparr>item_id = 1, item_word = [99], item_encoded = [1],
                          item_num_syllables = 0, item_stress = None\<rparr>],
              l_batch_size = 2, l_shuffle = False\<rparr> = Inl e)"
proof -
  let ?row = "\<lparr>row_id = 1, row_word = [99, 97, 116], row_num_syllables = 1, row_stress = 2\<rparr>"
  let ?it = "\<lparr>item_id = 1, item_word = [99], item_encoded = [1],
              item_num_syllables = 0, item_stress = None\<rparr>"
  let ?dl = "\<lparr>l_items = [?it], l_batch_size = 2, l_shuffle = False\<rparr>"
  note t = invalid_example_fails[of _ _ "[0, 0, 0]" "[1, 0]" "[[0, 0, 0], [0, 0, 0]]" "[3, 3]" 1
      ?row "[?row]" example_args example_env Test ?it ?dl example_model]
  have a: "example_loss [0, 0, 0] 2 3 = Inl TargetOutOfBounds"
    using t[of 2 3, THEN conjunct1] by simp
  have b: "example_loss [0, 0, 0] 0 1 = Inl TargetOutOfBounds"
    using t[of 0 1, THEN conjunct1] by simp
  have c: "masked_cross_entropy_loss [[0, 0, 0], [0, 0, 0]] [1, 0] [3, 3] = Inl TargetOutOfBounds"
    using t[of 0 0, THEN conjunct2, THEN conjunct2, THEN conjunct2, THEN conjunct1] by simp
  have d: "\<exists>e. main_train Test example_env example_args [?row] = Inl e"
    using t[of 0 0, THEN conjunct2, THEN conjunct2, THEN conjunct2, THEN conjunct2, THEN conjunct1]
    by (simp add: example_args_def example_env_def)
  have e: "\<exists>e. predict example_model ?dl = Inl e"
    using t[of 0 0, THEN conjunct2, THEN conjunct2, THEN conjunct2, THEN conjunct2, THEN conjunct2]
    by simp
  from a b c d e show ?thesis by (intro conjI)
qed

text \<open>
  Claim C5 as stated fails on two kinds of example. The label \<open>-99\<close> becomes the class
  index \<open>-100\<close>, the index the library ignores: the row is skipped without an error
  and the loss of the row, and of the batch, is not a number. A negative syllable
  count cuts scores from the end of the row instead of failing: with three scores and
  the count \<open>-1\<close> the label 1 is scored against the first two.
\<close>

theorem invalid_label_not_detected:
  "example_loss [0, 0, 0] 2 (- 99) = Inr NaN
   \<and> masked_cross_entropy_loss [[0, 0, 0]] [- 99] [2] = Inr NaN
   \<and> example_loss [0, 0, 0] (- 1) 1 = Inr (Finite (ln 2))"
  by (simp add: example_loss_def masked_cross_entropy_loss_def slice_to_def cross_entropy_def ln_div)

end
